theory Spec2Isabelle
  imports Complex_Main "HOL-Library.Multiset" "HOL-Library.Char_ord" "HOL-Library.List_Lexorder"
begin

section \<open>redundans.py: library classification and the staged pipeline\<close>

text \<open>
  A shallow embedding of \<^verbatim>\<open>src/redundans.py\<close>. Python floats are read as
  real numbers (no rounding, no infinities, no NaN) and Python integers as \<open>int\<close>.
  A Python exception is a value of type \<open>error\<close>; a function that may raise returns
  \<open>error + 'a\<close>. Messages written to the diagnostic stream are values of type
  \<open>message\<close> (their fields are the arguments of the format string).
\<close>

subsection \<open>Exceptions and diagnostics\<close>

datatype error =
    ValueError
  | IndexError
  | ZeroDivisionError
  | IOError
  | OSError
  | NameError
  | SystemExit int
  | External string

datatype message =
    PoorQuality string real string string "int list"
  | HighlyVariable real real string string
  | Aligning int
  | Iteration nat int
  | SkippingUnsupported string string string
  | DirectoryExists string
  | Banner string
  | StatsLine string

subsection \<open>Python helpers\<close>

text \<open>\<^verbatim>\<open>int(x)\<close> on a float truncates towards zero.\<close>

definition py_int :: "real \<Rightarrow> int" where
  "py_int x = (if 0 \<le> x then \<lfloor>x\<rfloor> else \<lceil>x\<rceil>)"

text \<open>\<^verbatim>\<open>max(xs)\<close> raises ValueError on an empty sequence.\<close>

fun py_max :: "int list \<Rightarrow> error + int" where
  "py_max [] = Inl ValueError"
| "py_max (x # xs) = Inr (fold max xs x)"

text \<open>\<^verbatim>\<open>xs.index(v)\<close>: the first position holding \<open>v\<close>, ValueError when there is none.\<close>

fun py_index :: "int list \<Rightarrow> int \<Rightarrow> error + nat" where
  "py_index [] v = Inl ValueError"
| "py_index (x # xs) v =
     (if x = v then Inr 0
      else (case py_index xs v of Inl e \<Rightarrow> Inl e | Inr k \<Rightarrow> Inr (Suc k)))"

text \<open>\<^verbatim>\<open>"%s" % n\<close> for a non-negative integer: its decimal digits.\<close>

function str_nat :: "nat \<Rightarrow> string" where
  "str_nat n =
     (if n < 10 then [''0123456789'' ! n]
      else str_nat (n div 10) @ [''0123456789'' ! (n mod 10)])"
  by pat_completeness auto
termination
  by (relation "measure id") auto

declare str_nat.simps [simp del]

definition str_int :: "int \<Rightarrow> string" where
  "str_int k = (if k < 0 then CHR ''-'' # str_nat (nat (- k)) else str_nat (nat k))"

subsection \<open>get_orientation\<close>

definition orientations :: "string list" where
  "orientations = [''FF'', ''FR'', ''RF'', ''RR'']"

text \<open>
  Returns the orientation and the warnings written to the diagnostic stream.
  The division \<^verbatim>\<open>100.0 * maxc / sum(pairs)\<close> raises ZeroDivisionError when the
  counts sum to zero.
\<close>

definition get_orientation :: "int list \<Rightarrow> string \<Rightarrow> string \<Rightarrow> error + (string \<times> message list)" where
  "get_orientation pairs fq1 fq2 =
     (case py_max pairs of
        Inl e \<Rightarrow> Inl e
      | Inr maxc \<Rightarrow>
          (case py_index pairs maxc of
             Inl e \<Rightarrow> Inl e
           | Inr maxci \<Rightarrow>
               if length orientations \<le> maxci then Inl IndexError
               else
                 let orientation = orientations ! maxci in
                 if sum_list pairs = 0 then Inl ZeroDivisionError
                 else
                   let maxcfrac = 100 * real_of_int maxc / real_of_int (sum_list pairs) in
                   Inr (orientation,
                        if maxcfrac < 90
                        then [PoorQuality orientation maxcfrac fq1 fq2 pairs]
                        else [])))"

subsection \<open>get_libraries: the clustering loop\<close>

text \<open>One entry of \<^verbatim>\<open>libdata\<close>: \<^verbatim>\<open>(fq1, fq2, ismedian, ismean, isstd, pairs)\<close>.\<close>

record dataset =
  fq1 :: string
  fq2 :: string
  ismedian :: real
  ismean :: real
  isstd :: real
  pairs :: "int list"

text \<open>
  One library set: the six parallel lists
  \<^verbatim>\<open>[libnames, libFs, libRs, orientations, libIS, libISStDev]\<close>.
  An open file is represented by the path it was opened from.
\<close>

record libset =
  libnames :: "string list"
  libFs :: "string list"
  libRs :: "string list"
  orients :: "string list"
  libIS :: "int list"
  libISStDev :: "real list"

definition empty_libset :: libset where
  "empty_libset = \<lparr>libnames = [], libFs = [], libRs = [], orients = [], libIS = [], libISStDev = []\<rparr>"

text \<open>
  The test \<^verbatim>\<open>not libraries or ismedian > 1.5*libraries[-1][4][0]\<close>. Reading
  element 0 of an empty list raises IndexError.
\<close>

definition new_set_needed :: "libset list \<Rightarrow> dataset \<Rightarrow> error + bool" where
  "new_set_needed libraries d =
     (if libraries = [] then Inr True
      else (case libIS (last libraries) of
              [] \<Rightarrow> Inl IndexError
            | m # _ \<Rightarrow> Inr (1.5 * real_of_int m < ismedian d)))"

text \<open>
  The six \<^verbatim>\<open>append\<close> calls of one pass: a library joins the set \<open>cur\<close>.
\<close>

definition append_library ::
  "libset \<Rightarrow> string \<Rightarrow> string \<Rightarrow> string \<Rightarrow> string \<Rightarrow> int \<Rightarrow> real \<Rightarrow> libset" where
  "append_library cur name f r orientation mean stdfrac =
     \<lparr>libnames = libnames cur @ [name],
      libFs = libFs cur @ [f],
      libRs = libRs cur @ [r],
      orients = orients cur @ [orientation],
      libIS = libIS cur @ [mean],
      libISStDev = libISStDev cur @ [stdfrac]\<rparr>"

text \<open>
  The body of the \<^verbatim>\<open>for\<close> loop. The loop state is the list of library sets, the
  counter \<^verbatim>\<open>i\<close> (assigned in the first pass, before its first use) and the
  warnings written so far. \<open>readable\<close> says which paths \<^verbatim>\<open>open\<close> can open.
  The last set is mutated in place in the source; here it is replaced.
\<close>

definition add_library ::
  "(string \<Rightarrow> bool) \<Rightarrow> libset list \<times> nat \<times> message list \<Rightarrow> dataset
     \<Rightarrow> error + (libset list \<times> nat \<times> message list)" where
  "add_library readable st d =
     (case st of (libraries, i, msgs) \<Rightarrow>
        (case new_set_needed libraries d of
           Inl e \<Rightarrow> Inl e
         | Inr new \<Rightarrow>
             let libraries = (if new then libraries @ [empty_libset] else libraries);
                 i = (if new then 1 else i)
             in if \<not> readable (fq1 d) then Inl IOError
                else if \<not> readable (fq2 d) then Inl IOError
                else
                  (case get_orientation (pairs d) (fq1 d) (fq2 d) of
                     Inl e \<Rightarrow> Inl e
                   | Inr (orientation, warned) \<Rightarrow>
                       if ismean d = 0 then Inl ZeroDivisionError
                       else
                         let stdfrac = isstd d / ismean d;
                             msgs = msgs @ warned
                                 @ (if 0.66 < stdfrac
                                    then [HighlyVariable (ismean d) (isstd d) (fq1 d) (fq2 d)]
                                    else []);
                             stdfrac = (if 1 < stdfrac then 1 else stdfrac);
                             cur = append_library (last libraries) (''lib'' @ str_nat i)
                                     (fq1 d) (fq2 d) orientation (py_int (ismean d)) stdfrac
                         in Inr (butlast libraries @ [cur], i + 1, msgs))))"

fun get_libraries_loop ::
  "(string \<Rightarrow> bool) \<Rightarrow> libset list \<times> nat \<times> message list \<Rightarrow> dataset list
     \<Rightarrow> error + (libset list \<times> nat \<times> message list)" where
  "get_libraries_loop readable st [] = Inr st"
| "get_libraries_loop readable st (d # ds) =
     (case add_library readable st d of
        Inl e \<Rightarrow> Inl e
      | Inr st' \<Rightarrow> get_libraries_loop readable st' ds)"

text \<open>
  Lines 63 to 90 of \<^verbatim>\<open>get_libraries\<close>: the datasets are taken in ascending order
  of mean insert (Python's \<^verbatim>\<open>sorted\<close> is stable) and clustered.
\<close>

definition classify :: "(string \<Rightarrow> bool) \<Rightarrow> dataset list \<Rightarrow> error + (libset list \<times> message list)" where
  "classify readable libdata =
     (case get_libraries_loop readable ([], 0, []) (sort_key ismean libdata) of
        Inl e \<Rightarrow> Inl e
      | Inr (libraries, i, msgs) \<Rightarrow> Inr (libraries, msgs))"

subsection \<open>Vocabulary for the classifier's properties\<close>

text \<open>
  The libraries of a set, read row by row from its parallel lists, and the row a dataset
  contributes: its two files, its truncated mean insert and its capped variability.
  A set is well formed when it has a member and its lists have one length.
\<close>

definition wf_libset :: "libset \<Rightarrow> bool" where
  "wf_libset s \<longleftrightarrow>
     libFs s \<noteq> [] \<and> length (libnames s) = length (libFs s) \<and> length (libRs s) = length (libFs s)
     \<and> length (orients s) = length (libFs s) \<and> length (libIS s) = length (libFs s)
     \<and> length (libISStDev s) = length (libFs s)"

definition members :: "libset \<Rightarrow> (string \<times> string \<times> int \<times> real) list" where
  "members s = zip (libFs s) (zip (libRs s) (zip (libIS s) (libISStDev s)))"

definition entry :: "dataset \<Rightarrow> string \<times> string \<times> int \<times> real" where
  "entry d = (fq1 d, fq2 d, py_int (ismean d),
              if 1 < isstd d / ismean d then 1 else isstd d / ismean d)"

subsection \<open>Example datasets\<close>

text \<open>
  Three paired-end datasets with mean inserts 300, 305 and 1200 (the last one highly
  variable), and one with all orientation counts zero.
\<close>

definition ex_d300 :: dataset where
  "ex_d300 = \<lparr>fq1 = ''a_1.fq'', fq2 = ''a_2.fq'', ismedian = 300, ismean = 300, isstd = 30,
              pairs = [5, 95, 0, 0]\<rparr>"

definition ex_d305 :: dataset where
  "ex_d305 = \<lparr>fq1 = ''b_1.fq'', fq2 = ''b_2.fq'', ismedian = 305, ismean = 305, isstd = 61,
              pairs = [5, 95, 0, 0]\<rparr>"

definition ex_d1200 :: dataset where
  "ex_d1200 = \<lparr>fq1 = ''c_1.fq'', fq2 = ''c_2.fq'', ismedian = 1200, ismean = 1200, isstd = 1300,
               pairs = [0, 5, 95, 0]\<rparr>"

definition ex_dzero :: dataset where
  "ex_dzero = \<lparr>fq1 = ''z_1.fq'', fq2 = ''z_2.fq'', ismedian = 500, ismean = 500, isstd = 50,
               pairs = [0, 0, 0, 0]\<rparr>"

definition ex_set1 :: libset where
  "ex_set1 = \<lparr>libnames = [''lib1'', ''lib2''], libFs = [''a_1.fq'', ''b_1.fq''],
              libRs = [''a_2.fq'', ''b_2.fq''], orients = [''FR'', ''FR''],
              libIS = [300, 305], libISStDev = [1 / 10, 1 / 5]\<rparr>"

definition ex_set2 :: libset where
  "ex_set2 = \<lparr>libnames = [''lib1''], libFs = [''c_1.fq''], libRs = [''c_2.fq''],
              orients = [''RF''], libIS = [1200], libISStDev = [1]\<rparr>"

section \<open>The pipeline: files, collaborators, stages\<close>

subsection \<open>Paths\<close>

text \<open>
  POSIX paths as strings. \<^verbatim>\<open>os.path.join\<close>, \<^verbatim>\<open>os.path.dirname\<close> and
  \<^verbatim>\<open>os.path.basename\<close> as \<^verbatim>\<open>posixpath\<close> defines them.
\<close>

definition is_abs :: "string \<Rightarrow> bool" where
  "is_abs p = (case p of [] \<Rightarrow> False | c # _ \<Rightarrow> c = CHR ''/'')"

definition path_join :: "string \<Rightarrow> string \<Rightarrow> string" where
  "path_join a b =
     (if is_abs b then b
      else if a = [] \<or> last a = CHR ''/'' then a @ b
      else a @ ''/'' @ b)"

definition rstrip_slash :: "string \<Rightarrow> string" where
  "rstrip_slash p = rev (dropWhile (\<lambda>c. c = CHR ''/'') (rev p))"

definition dirname :: "string \<Rightarrow> string" where
  "dirname p =
     (let head = rev (dropWhile (\<lambda>c. c \<noteq> CHR ''/'') (rev p))
      in if head \<noteq> [] \<and> \<not> list_all (\<lambda>c. c = CHR ''/'') head then rstrip_slash head else head)"

definition basename :: "string \<Rightarrow> string" where
  "basename p = rev (takeWhile (\<lambda>c. c \<noteq> CHR ''/'') (rev p))"

subsection \<open>The file system and the observable world\<close>

text \<open>
  A file system maps absolute paths to nodes. Paths are taken as the program writes them
  (no \<^verbatim>\<open>.\<close> or \<^verbatim>\<open>..\<close> components are rewritten) and only the last component of a
  path may be a symbolic link. The world of a run is the working directory, the file
  system, the diagnostic stream and the list of collaborator invocations, in order.
\<close>

datatype node = Regular string | Symlink string | Directory

type_synonym filesystem = "string \<Rightarrow> node option"

text \<open>
  One invocation of a collaborator, with the arguments that vary from call to call:
  the statistics collaborator (reads, assembly, mapping quality, threads, cap on pairs),
  the scaffolder (output prefix, input assembly, library set), the reduction step
  (output, input), the summary statistics (file) and the gap filler (input,
  configuration, output).
\<close>

datatype call =
    Fastq2InsertSize "string list" string int int real
  | Fastq2Sspace string string libset
  | Fasta2Homozygous string string
  | FastaStats string
  | GapCloser string string string

record world =
  cwd :: string
  files :: filesystem
  stderr :: "message list"
  calls :: "call list"

definition abspath :: "world \<Rightarrow> string \<Rightarrow> string" where
  "abspath w p = path_join (cwd w) p"

text \<open>
  Following symbolic links from a path to the node they end at. The kernel gives up
  after 40 links (ELOOP); the counter is the number of nodes that may still be visited.
\<close>

definition max_links :: nat where
  "max_links = 40"

fun resolve :: "nat \<Rightarrow> world \<Rightarrow> string \<Rightarrow> string option" where
  "resolve 0 w p = None"
| "resolve (Suc n) w p =
     (case files w (abspath w p) of
        None \<Rightarrow> None
      | Some (Symlink t) \<Rightarrow> resolve n w (path_join (dirname (abspath w p)) t)
      | Some _ \<Rightarrow> Some (abspath w p))"

definition isfile :: "world \<Rightarrow> string \<Rightarrow> bool" where
  "isfile w p =
     (case resolve (Suc max_links) w p of
        None \<Rightarrow> False
      | Some q \<Rightarrow> (case files w q of Some (Regular c) \<Rightarrow> True | _ \<Rightarrow> False))"

definition isdir :: "world \<Rightarrow> string \<Rightarrow> bool" where
  "isdir w p =
     (case resolve (Suc max_links) w p of
        None \<Rightarrow> False
      | Some q \<Rightarrow> (case files w q of Some Directory \<Rightarrow> True | _ \<Rightarrow> False))"

text \<open>What reading the file at a path returns, when the path leads to a regular file.\<close>

definition read_file :: "world \<Rightarrow> string \<Rightarrow> string option" where
  "read_file w p =
     (case resolve (Suc max_links) w p of
        None \<Rightarrow> None
      | Some q \<Rightarrow> (case files w q of Some (Regular c) \<Rightarrow> Some c | _ \<Rightarrow> None))"

text \<open>
  \<^verbatim>\<open>os.symlink(src, dst)\<close>: OSError when \<open>dst\<close> exists (as anything, a dangling link
  too) or its directory does not.
\<close>

definition os_symlink :: "string \<Rightarrow> string \<Rightarrow> world \<Rightarrow> (error + unit) \<times> world" where
  "os_symlink src dst w =
     (if files w (abspath w dst) \<noteq> None then (Inl OSError, w)
      else if \<not> isdir w (dirname (abspath w dst)) then (Inl OSError, w)
      else (Inr (), w\<lparr>files := (files w)(abspath w dst \<mapsto> Symlink src)\<rparr>))"

text \<open>
  \<^verbatim>\<open>open(path, "w")\<close> followed by writing \<open>content\<close>: the file is created or
  replaced; IOError when the path is a directory, a link (followed once links are
  resolved) that leads nowhere usable, or when its directory does not exist.
\<close>

fun write_target :: "nat \<Rightarrow> world \<Rightarrow> string \<Rightarrow> string option" where
  "write_target 0 w p = None"
| "write_target (Suc n) w p =
     (case files w (abspath w p) of
        None \<Rightarrow> (if isdir w (dirname (abspath w p)) then Some (abspath w p) else None)
      | Some (Symlink t) \<Rightarrow> write_target n w (path_join (dirname (abspath w p)) t)
      | Some (Regular c) \<Rightarrow> Some (abspath w p)
      | Some Directory \<Rightarrow> None)"

definition write_file :: "string \<Rightarrow> string \<Rightarrow> world \<Rightarrow> (error + unit) \<times> world" where
  "write_file p content w =
     (case write_target (Suc max_links) w p of
        None \<Rightarrow> (Inl IOError, w)
      | Some q \<Rightarrow> (Inr (), w\<lparr>files := (files w)(q \<mapsto> Regular content)\<rparr>))"

text \<open>
  \<^verbatim>\<open>os.makedirs(name)\<close>: the directory and its missing ancestors are created;
  OSError when the path exists or an ancestor is not a directory.
\<close>

definition ancestors :: "string \<Rightarrow> string list" where
  "ancestors p = map (\<lambda>i. take i p) (filter (\<lambda>i. 0 < i \<and> p ! i = CHR ''/'') [0..<length p])"

definition makedirs :: "string \<Rightarrow> world \<Rightarrow> (error + unit) \<times> world" where
  "makedirs name w =
     (let p = abspath w name in
      if files w p \<noteq> None then (Inl OSError, w)
      else if list_ex (\<lambda>a. files w a \<noteq> None \<and> files w a \<noteq> Some Directory) (ancestors p)
      then (Inl OSError, w)
      else (Inr (), w\<lparr>files := (\<lambda>q. if q = p \<or> (q \<in> set (ancestors p) \<and> files w q = None)
                                      then Some Directory else files w q)\<rparr>))"

definition write_stderr :: "message \<Rightarrow> world \<Rightarrow> world" where
  "write_stderr m w = w\<lparr>stderr := stderr w @ [m]\<rparr>"

definition record_call :: "call \<Rightarrow> world \<Rightarrow> world" where
  "record_call c w = w\<lparr>calls := calls w @ [c]\<rparr>"

subsection \<open>symlink\<close>

text \<open>
  \<^verbatim>\<open>symlink(file1, file2)\<close> of the source: nothing happens when \<open>file2\<close> is a file
  already; the link is made to the absolute path of \<open>file1\<close> when that is a file, and to
  \<open>file1\<close> as given otherwise. \<^verbatim>\<open>os.path.realpath(os.path.curdir)\<close> is the working
  directory.
\<close>

definition symlink :: "string \<Rightarrow> string \<Rightarrow> world \<Rightarrow> (error + unit) \<times> world" where
  "symlink file1 file2 w =
     (if \<not> isfile w file2 then
        let file1abs = path_join (cwd w) file1
        in if isfile w file1abs then os_symlink file1abs file2 w
           else os_symlink file1 file2 w
      else (Inr (), w))"

subsection \<open>Collaborators\<close>

text \<open>
  The imported modules and the external programs are not part of this file of the
  repository; each is a parameter: a function of the arguments the pipeline passes and of
  the file system, returning a result or an exception and the file system it leaves.
  \<^verbatim>\<open>filter_paired\<close>, which \<^verbatim>\<open>filter_reads\<close> calls, is not among them: the module
  neither defines nor imports that name, so it is not a collaborator but an unbound name.
  \<open>glob\<close> lists the paths that match a pattern, as \<^verbatim>\<open>glob.glob\<close> does.
\<close>

record env =
  fastq2insert_size ::
    "string list \<Rightarrow> string \<Rightarrow> int \<Rightarrow> int \<Rightarrow> real \<Rightarrow> filesystem \<Rightarrow> (error + dataset list) \<times> filesystem"
  fasta_stats :: "string \<Rightarrow> filesystem \<Rightarrow> error + string"
  fasta2homozygous :: "string \<Rightarrow> string \<Rightarrow> libset list \<Rightarrow> int \<Rightarrow> filesystem \<Rightarrow> (error + unit) \<times> filesystem"
  fastq2sspace :: "string \<Rightarrow> string \<Rightarrow> libset \<Rightarrow> filesystem \<Rightarrow> (error + unit) \<times> filesystem"
  gapcloser :: "string \<Rightarrow> string \<Rightarrow> string \<Rightarrow> filesystem \<Rightarrow> (error + unit) \<times> filesystem"
  glob :: "string \<Rightarrow> filesystem \<Rightarrow> string list"

text \<open>Running a collaborator on the world's file system.\<close>

definition run_collaborator ::
  "(filesystem \<Rightarrow> (error + 'a) \<times> filesystem) \<Rightarrow> world \<Rightarrow> (error + 'a) \<times> world" where
  "run_collaborator f w = (case f (files w) of (r, fs) \<Rightarrow> (r, w\<lparr>files := fs\<rparr>))"

subsection \<open>get_libraries and get_read_limit\<close>

text \<open>
  Lines 55 to 60: the limit is raised to \<^verbatim>\<open>10e5\<close> when it is unset or smaller, and
  one hundredth of it is the cap handed to the statistics collaborator. \<open>limit\<close> is an
  integer here (it comes from \<^verbatim>\<open>get_read_limit\<close>), so \<^verbatim>\<open>limit/100\<close> is Python 2's
  integer division unless the limit was replaced by the float \<^verbatim>\<open>10e5\<close>.
\<close>

definition sample_cap :: "int \<Rightarrow> real" where
  "sample_cap limit =
     (if limit = 0 \<or> real_of_int limit < 1000000 then 1000000 / 100
      else real_of_int (limit div 100))"

definition get_libraries ::
  "env \<Rightarrow> string list \<Rightarrow> string \<Rightarrow> int \<Rightarrow> int \<Rightarrow> int \<Rightarrow> world \<Rightarrow> (error + libset list) \<times> world" where
  "get_libraries env fastq fasta mapq threads limit w =
     (let cap = sample_cap limit;
          w1 = record_call (Fastq2InsertSize fastq fasta mapq threads cap) w
      in case run_collaborator (fastq2insert_size env fastq fasta mapq threads cap) w1 of
           (Inl e, w2) \<Rightarrow> (Inl e, w2)
         | (Inr libdata, w2) \<Rightarrow>
             (case classify (isfile w2) libdata of
                Inl e \<Rightarrow> (Inl e, w2)
              | Inr (libraries, msgs) \<Rightarrow> (Inr libraries, w2\<lparr>stderr := stderr w2 @ msgs\<rparr>)))"

text \<open>\<^verbatim>\<open>s.split('\t')\<close> and \<^verbatim>\<open>int(s)\<close> on a string.\<close>

fun split_on :: "char \<Rightarrow> string \<Rightarrow> string list" where
  "split_on c [] = [[]]"
| "split_on c (x # xs) =
     (if x = c then [] # split_on c xs
      else (case split_on c xs of [] \<Rightarrow> [[x]] | y # ys \<Rightarrow> (x # y) # ys))"

fun position :: "char \<Rightarrow> string \<Rightarrow> nat option" where
  "position c [] = None"
| "position c (x # xs) = (if c = x then Some 0 else map_option Suc (position c xs))"

definition digit_val :: "char \<Rightarrow> int option" where
  "digit_val c = map_option int (position c ''0123456789'')"

fun digits_val :: "int \<Rightarrow> string \<Rightarrow> int option" where
  "digits_val acc [] = Some acc"
| "digits_val acc (c # cs) =
     (case digit_val c of None \<Rightarrow> None | Some v \<Rightarrow> digits_val (10 * acc + v) cs)"

definition is_space :: "char \<Rightarrow> bool" where
  "is_space c = (c = CHR '' '' \<or> c = CHR 0x09 \<or> c = CHR 0x0A \<or> c = CHR 0x0B \<or> c = CHR 0x0C
                 \<or> c = CHR 0x0D)"

definition strip :: "string \<Rightarrow> string" where
  "strip s = rev (dropWhile is_space (rev (dropWhile is_space s)))"

definition int_of_str :: "string \<Rightarrow> error + int" where
  "int_of_str s =
     (let t = strip s;
          neg = (t \<noteq> [] \<and> hd t = CHR ''-'');
          ds = (if t \<noteq> [] \<and> (hd t = CHR ''-'' \<or> hd t = CHR ''+'') then tl t else t)
      in if ds = [] then Inl ValueError
         else (case digits_val 0 ds of
                 None \<Rightarrow> Inl ValueError
               | Some v \<Rightarrow> Inr (if neg then - v else v)))"

text \<open>
  \<^verbatim>\<open>get_read_limit\<close>: with a read-fraction limit, the limit is that fraction of the
  assembly size reported by \<^verbatim>\<open>fasta_stats\<close> (third tab-separated field), truncated;
  without it, 0. Returns the limit and the libraries.
\<close>

definition get_read_limit ::
  "env \<Rightarrow> string list \<Rightarrow> string \<Rightarrow> int \<Rightarrow> int \<Rightarrow> real \<Rightarrow> bool \<Rightarrow> world
     \<Rightarrow> (error + (int \<times> libset list)) \<times> world" where
  "get_read_limit env fastq fasta mapq threads readLimit verbose w =
     (case (if readLimit \<noteq> 0 then
              (if \<not> isfile w fasta then (Inl IOError, w)
               else
                 let w1 = record_call (FastaStats fasta) w in
                 case fasta_stats env fasta (files w1) of
                   Inl e \<Rightarrow> (Inl e, w1)
                 | Inr stats \<Rightarrow>
                     let fields = split_on (CHR 0x09) stats in
                     if length fields \<le> 2 then (Inl IndexError, w1)
                     else (case int_of_str (fields ! 2) of
                             Inl e \<Rightarrow> (Inl e, w1)
                           | Inr fastaSize \<Rightarrow>
                               let limit = py_int (readLimit * real_of_int fastaSize)
                               in (Inr limit, if verbose then write_stderr (Aligning limit) w1 else w1)))
            else (Inr 0, w)) of
        (Inl e, w2) \<Rightarrow> (Inl e, w2)
      | (Inr limit, w2) \<Rightarrow>
          (case get_libraries env fastq fasta mapq threads limit w2 of
             (Inl e, w3) \<Rightarrow> (Inl e, w3)
           | (Inr libraries, w3) \<Rightarrow> (Inr (limit, libraries), w3)))"

subsection \<open>An example run directory and example collaborators\<close>

text \<open>
  A working directory \<^verbatim>\<open>/w\<close> holding an assembly and six read files. The example
  statistics collaborator reports the three example datasets whatever the assembly; the
  example summary reports an assembly of 20,000,000 bases; the example scaffolder writes
  its result under its output prefix; the example gap filler writes its output file.
\<close>

definition ex_files :: filesystem where
  "ex_files =
     [''/'' \<mapsto> Directory, ''/w'' \<mapsto> Directory,
      ''/w/genome.fa'' \<mapsto> Regular ''>contig1'',
      ''/w/a_1.fq'' \<mapsto> Regular ''@a1'', ''/w/a_2.fq'' \<mapsto> Regular ''@a2'',
      ''/w/b_1.fq'' \<mapsto> Regular ''@b1'', ''/w/b_2.fq'' \<mapsto> Regular ''@b2'',
      ''/w/c_1.fq'' \<mapsto> Regular ''@c1'', ''/w/c_2.fq'' \<mapsto> Regular ''@c2'']"

definition ex_world :: world where
  "ex_world = \<lparr>cwd = ''/w'', files = ex_files, stderr = [], calls = []\<rparr>"

definition ex_fastq :: "string list" where
  "ex_fastq = [''a_1.fq'', ''a_2.fq'', ''b_1.fq'', ''b_2.fq'', ''c_1.fq'', ''c_2.fq'']"

definition ex_env :: env where
  "ex_env =
     \<lparr>fastq2insert_size = (\<lambda>fastq fasta mapq threads cap fs. (Inr [ex_d1200, ex_d300, ex_d305], fs)),
      fasta_stats = (\<lambda>fasta fs. Inr (fasta @ [CHR 0x09] @ ''2'' @ [CHR 0x09] @ ''20000000'' @ [CHR 0x0A])),
      fasta2homozygous = (\<lambda>out inp libs limit fs. (Inr (), fs(out \<mapsto> Regular ''>reduced''))),
      fastq2sspace = (\<lambda>out inp lib fs.
         (Inr (), fs(out \<mapsto> Directory,
                     out @ ''/'' @ basename out @ ''.final.scaffolds.fasta'' \<mapsto> Regular ''>scaffold''))),
      gapcloser = (\<lambda>inp conf out fs. (Inr (), fs(out \<mapsto> Regular ''>filled''))),
      glob = (\<lambda>pattern fs. [])\<rparr>"

subsection \<open>run_scaffolding\<close>

text \<open>
  The options of a run: the parameters of \<^verbatim>\<open>redundants\<close>.
\<close>

record options =
  opt_fastq :: "string list"
  opt_fasta :: string
  opt_outdir :: string
  opt_mapq :: int
  opt_threads :: int
  opt_identity :: real
  opt_overlap :: real
  opt_minLength :: int
  opt_joins :: int
  opt_readLimit :: real
  opt_iters :: int
  opt_sspacebin :: string
  opt_reduction :: bool
  opt_scaffolding :: bool
  opt_gapclosing :: bool
  opt_verbose :: bool

text \<open>
  The inner loop \<^verbatim>\<open>for j in range(1, iters+1)\<close> for library set number \<open>i\<close>: each
  round opens the current assembly \<open>pout\<close> (IOError when it is not a file), runs the
  scaffolder on it, and links \<^verbatim>\<open>out.fa\<close> to the scaffolder's result, which becomes
  the current assembly.
\<close>

fun scaffold_rounds ::
  "env \<Rightarrow> string \<Rightarrow> bool \<Rightarrow> libset \<Rightarrow> nat \<Rightarrow> int list \<Rightarrow> string \<Rightarrow> world
     \<Rightarrow> (error + string) \<times> world" where
  "scaffold_rounds env outdir verbose lib i [] pout w = (Inr pout, w)"
| "scaffold_rounds env outdir verbose lib i (j # js) pout w =
     (let w1 = (if verbose then write_stderr (Iteration i j) w else w);
          out = path_join outdir (''_sspace.'' @ str_nat i @ ''.'' @ str_int j)
      in if \<not> isfile w1 pout then (Inl IOError, w1)
         else
           (case run_collaborator (fastq2sspace env out pout lib)
                   (record_call (Fastq2Sspace out pout lib) w1) of
              (Inl e, w2) \<Rightarrow> (Inl e, w2)
            | (Inr u, w2) \<Rightarrow>
                let pout' = out @ ''.fa'';
                    targetout = path_join (basename out) (basename (out @ ''.final.scaffolds.fasta''))
                in (case symlink targetout pout' w2 of
                      (Inl e, w3) \<Rightarrow> (Inl e, w3)
                    | (Inr u, w3) \<Rightarrow> scaffold_rounds env outdir verbose lib i js pout' w3)))"

text \<open>
  The outer loop \<^verbatim>\<open>while i < len(libraries)\<close>. The list \<open>libraries\<close> is replaced
  by a fresh classification against the current assembly after each set, so the loop is
  not bounded by the list it started with: the first argument bounds the number of
  passes, and \<open>None\<close> means that the bound was reached.
\<close>

fun scaffold_sets ::
  "nat \<Rightarrow> env \<Rightarrow> options \<Rightarrow> int \<Rightarrow> libset list \<Rightarrow> nat \<Rightarrow> string \<Rightarrow> world
     \<Rightarrow> ((error + string \<times> libset list) \<times> world) option" where
  "scaffold_sets 0 env opts limit libraries i pout w = None"
| "scaffold_sets (Suc fuel) env opts limit libraries i pout w =
     (if i < length libraries then
        (case scaffold_rounds env (opt_outdir opts) (opt_verbose opts) (libraries ! i) (i + 1)
                [1..opt_iters opts] pout w of
           (Inl e, w1) \<Rightarrow> Some (Inl e, w1)
         | (Inr pout', w1) \<Rightarrow>
             (case get_libraries env (opt_fastq opts) pout' (opt_mapq opts) (opt_threads opts) limit w1 of
                (Inl e, w2) \<Rightarrow> Some (Inl e, w2)
              | (Inr libraries', w2) \<Rightarrow>
                  scaffold_sets fuel env opts limit libraries' (i + 1) pout' w2))
      else Some (Inr (pout, libraries), w))"

definition run_scaffolding ::
  "nat \<Rightarrow> env \<Rightarrow> options \<Rightarrow> string \<Rightarrow> libset list \<Rightarrow> string \<Rightarrow> int \<Rightarrow> world
     \<Rightarrow> ((error + libset list) \<times> world) option" where
  "run_scaffolding fuel env opts scaffoldsFname libraries reducedFname limit w =
     (case scaffold_sets fuel env opts limit libraries 0 reducedFname w of
        None \<Rightarrow> None
      | Some (Inl e, w1) \<Rightarrow> Some (Inl e, w1)
      | Some (Inr (pout, libraries'), w1) \<Rightarrow>
          (case symlink pout scaffoldsFname w1 of
             (Inl e, w2) \<Rightarrow> Some (Inl e, w2)
           | (Inr u, w2) \<Rightarrow> Some (Inr libraries', w2)))"

subsection \<open>Gap closing\<close>

text \<open>
  \<^verbatim>\<open>filter_reads\<close>: the two output files are opened for writing, and then
  \<^verbatim>\<open>filter_paired\<close> is called. The module neither defines nor imports a
  \<^verbatim>\<open>filter_paired\<close>, so the call raises NameError and the lines after it (closing
  the files, returning their names) are never reached.
\<close>

definition filter_reads ::
  "nat \<Rightarrow> string \<Rightarrow> string \<Rightarrow> string \<Rightarrow> world \<Rightarrow> (error + string \<times> string) \<times> world" where
  "filter_reads i outdir f r w =
     (let fn1 = path_join outdir (''_gapcloser.'' @ str_nat i @ ''.'' @ basename f @ ''.fq'');
          fn2 = path_join outdir (''_gapcloser.'' @ str_nat i @ ''.'' @ basename r @ ''.fq'')
      in case write_file fn1 [] w of
           (Inl e, w1) \<Rightarrow> (Inl e, w1)
         | (Inr u, w1) \<Rightarrow>
             (case write_file fn2 [] w1 of
                (Inl e, w2) \<Rightarrow> (Inl e, w2)
              | (Inr u, w2) \<Rightarrow> (Inl NameError, w2)))"

definition newline :: string where
  "newline = [CHR 0x0A]"

text \<open>One \<^verbatim>\<open>[LIB]\<close> block of the configuration: the format string \<^verbatim>\<open>lines\<close>.\<close>

definition lib_lines :: "int \<Rightarrow> int \<Rightarrow> nat \<Rightarrow> string \<Rightarrow> string \<Rightarrow> string" where
  "lib_lines iSize reverse_seq i fn1 fn2 =
     ''[LIB]'' @ newline @ ''avg_ins='' @ str_int iSize @ newline
     @ ''reverse_seq='' @ str_int reverse_seq @ newline
     @ ''asm_flags=3'' @ newline @ ''rank='' @ str_nat i @ newline
     @ ''pair_num_cutoff=5'' @ newline @ ''map_len=35'' @ newline
     @ ''q1='' @ fn1 @ newline @ ''q2='' @ fn2 @ newline"

text \<open>\<^verbatim>\<open>"\n".join(config)\<close>.\<close>

fun join_lines :: "string list \<Rightarrow> string" where
  "join_lines [] = []"
| "join_lines [x] = x"
| "join_lines (x # y # ys) = x @ newline @ join_lines (y # ys)"

text \<open>The \<^verbatim>\<open>if\<close>/\<^verbatim>\<open>elif\<close>/\<^verbatim>\<open>else\<close> on the orientation: FR, RF, or unsupported.\<close>

definition reverse_seq_of :: "string \<Rightarrow> int option" where
  "reverse_seq_of orient =
     (if orient = ''FR'' then Some 0 else if orient = ''RF'' then Some 1 else None)"

text \<open>
  The loop of \<^verbatim>\<open>prepare_gapcloser\<close> over the libraries of a set, numbered from
  \<open>i\<close>: an unsupported library is skipped (with a message only when \<open>verbose\<close>), a
  supported one has its reads filtered and, were the filter to return, would add a block
  to \<open>config\<close>.
\<close>

fun prepare_loop ::
  "string \<Rightarrow> bool \<Rightarrow> nat \<Rightarrow> (string \<times> string \<times> string \<times> int \<times> real) list \<Rightarrow> string list
     \<Rightarrow> world \<Rightarrow> (error + string list) \<times> world" where
  "prepare_loop outdir verbose i [] config w = (Inr config, w)"
| "prepare_loop outdir verbose i ((f, r, orient, iSize, iFrac) # rows) config w =
     (case reverse_seq_of orient of
        None \<Rightarrow>
          prepare_loop outdir verbose (i + 1) rows config
            (if verbose then write_stderr (SkippingUnsupported orient f r) w else w)
      | Some reverse_seq \<Rightarrow>
          (case filter_reads i outdir f r w of
             (Inl e, w1) \<Rightarrow> (Inl e, w1)
           | (Inr (fn1, fn2), w1) \<Rightarrow>
               prepare_loop outdir verbose (i + 1) rows
                 (config @ [lib_lines iSize reverse_seq i fn1 fn2]) w1))"

text \<open>
  \<^verbatim>\<open>prepare_gapcloser\<close> returns \<^verbatim>\<open>True\<close> after writing the configuration, and
  falls off its end (returning \<^verbatim>\<open>None\<close>) when no library passed. \<open>lib_rows\<close> is the
  \<^verbatim>\<open>zip\<close> of the five lists the loop runs over.
\<close>

definition lib_rows :: "libset \<Rightarrow> (string \<times> string \<times> string \<times> int \<times> real) list" where
  "lib_rows lib =
     zip (libFs lib) (zip (libRs lib) (zip (orients lib) (zip (libIS lib) (libISStDev lib))))"

definition prepare_gapcloser ::
  "string \<Rightarrow> string \<Rightarrow> libset \<Rightarrow> int \<Rightarrow> bool \<Rightarrow> world \<Rightarrow> (error + bool option) \<times> world" where
  "prepare_gapcloser outdir configFn lib maxlen verbose w =
     (case prepare_loop outdir verbose 1 (lib_rows lib) [''max_rd_len='' @ str_int maxlen] w of
        (Inl e, w1) \<Rightarrow> (Inl e, w1)
      | (Inr config, w1) \<Rightarrow>
          if 1 < length config then
            (case write_file configFn (join_lines config) w1 of
               (Inl e, w2) \<Rightarrow> (Inl e, w2)
             | (Inr u, w2) \<Rightarrow> (Inr (Some True), w2))
          else (Inr None, w1))"

subsection \<open>Vocabulary for the configuration builder's properties\<close>

text \<open>
  A row of a set is eligible when its orientation is FR or RF; \<open>skipped\<close> lists the
  messages for the rows that are not, in order.
\<close>

definition eligible :: "string \<times> string \<times> string \<times> int \<times> real \<Rightarrow> bool" where
  "eligible row = (case row of (f, r, orient, iSize, iFrac) \<Rightarrow> orient = ''FR'' \<or> orient = ''RF'')"

fun skipped :: "(string \<times> string \<times> string \<times> int \<times> real) list \<Rightarrow> message list" where
  "skipped [] = []"
| "skipped ((f, r, orient, iSize, iFrac) # rows) =
     (if orient = ''FR'' \<or> orient = ''RF'' then [] else [SkippingUnsupported orient f r])
     @ skipped rows"

text \<open>
  A run directory \<^verbatim>\<open>/w/out\<close> that exists, and a set of two libraries, the first FR and
  the second RR.
\<close>

definition ex_world_out :: world where
  "ex_world_out = ex_world\<lparr>files := (files ex_world)(''/w/out'' \<mapsto> Directory)\<rparr>"

definition ex_frrr :: libset where
  "ex_frrr = \<lparr>libnames = [''lib1'', ''lib2''], libFs = [''a_1.fq'', ''c_1.fq''],
              libRs = [''a_2.fq'', ''c_2.fq''], orients = [''FR'', ''RR''],
              libIS = [300, 1200], libISStDev = [1 / 10, 1]\<rparr>"

definition ex_rr :: libset where
  "ex_rr = \<lparr>libnames = [''lib1''], libFs = [''c_1.fq''], libRs = [''c_2.fq''], orients = [''RR''],
            libIS = [1200], libISStDev = [1]\<rparr>"

subsection \<open>Vocabulary for the scaffolding loop's properties\<close>

text \<open>
  The scaffolder invocations among the recorded calls. A list of them is chained from
  an assembly \<open>p\<close> when the first one reads \<open>p\<close> and each later one reads the file
  \<^verbatim>\<open>out.fa\<close> of the one before; \<open>chain_end\<close> is the assembly the last one leaves.
\<close>

fun is_sspace :: "call \<Rightarrow> bool" where
  "is_sspace (Fastq2Sspace out inp lib) = True"
| "is_sspace c = False"

definition sspace_calls :: "world \<Rightarrow> call list" where
  "sspace_calls w = filter is_sspace (calls w)"

fun chained :: "string \<Rightarrow> call list \<Rightarrow> bool" where
  "chained p [] = True"
| "chained p (Fastq2Sspace out inp lib # cs) = (inp = p \<and> chained (out @ ''.fa'') cs)"
| "chained p (c # cs) = False"

fun chain_end :: "string \<Rightarrow> call list \<Rightarrow> string" where
  "chain_end p [] = p"
| "chain_end p (Fastq2Sspace out inp lib # cs) = chain_end (out @ ''.fa'') cs"
| "chain_end p (c # cs) = chain_end p cs"

text \<open>
  The statistics collaborator is stable at \<open>n\<close> sets when every answer it gives for these
  reads is classified into \<open>n\<close> library sets.
\<close>

definition stable_sets :: "env \<Rightarrow> options \<Rightarrow> nat \<Rightarrow> bool" where
  "stable_sets env opts n =
     (\<forall>fasta cap fs libdata fs' rd libs msgs.
        fastq2insert_size env (opt_fastq opts) fasta (opt_mapq opts) (opt_threads opts) cap fs
          = (Inr libdata, fs')
        \<longrightarrow> classify rd libdata = Inr (libs, msgs) \<longrightarrow> length libs = n)"

text \<open>
  Example options (two iterations per set), a run directory that holds a reduced
  assembly, and a statistics collaborator that reports only the two short-insert
  datasets, so that its answers are classified into one set.
\<close>

definition ex_opts :: options where
  "ex_opts = \<lparr>opt_fastq = ex_fastq, opt_fasta = ''genome.fa'', opt_outdir = ''/w/out'',
               opt_mapq = 10, opt_threads = 2, opt_identity = 0.8, opt_overlap = 0.75,
               opt_minLength = 200, opt_joins = 5, opt_readLimit = 0.2, opt_iters = 2,
               opt_sspacebin = ''SSPACE_Standard_v3.0.pl'', opt_reduction = True,
               opt_scaffolding = True, opt_gapclosing = True, opt_verbose = False\<rparr>"

definition ex_world_red :: world where
  "ex_world_red =
     ex_world\<lparr>files := (files ex_world)(''/w/out'' \<mapsto> Directory,
                                          ''/w/out/contigs.reduced.fa'' \<mapsto> Regular ''>reduced'')\<rparr>"

definition ex_env_one :: env where
  "ex_env_one =
     ex_env\<lparr>fastq2insert_size := (\<lambda>fastq fasta mapq threads cap fs. (Inr [ex_d300, ex_d305], fs))\<rparr>"

subsection \<open>run_gapclosing\<close>

text \<open>
  The iterations of the gap filler for library set number \<open>i\<close>: the log file is opened
  for writing, the program runs on the current assembly and the set's configuration, and
  its output becomes the current assembly. The exit status of the program is not read.
\<close>

fun gapcloser_rounds ::
  "env \<Rightarrow> string \<Rightarrow> bool \<Rightarrow> string \<Rightarrow> nat \<Rightarrow> int list \<Rightarrow> string \<Rightarrow> world
     \<Rightarrow> (error + string) \<times> world" where
  "gapcloser_rounds env outdir verbose configFn i [] pout w = (Inr pout, w)"
| "gapcloser_rounds env outdir verbose configFn i (j # js) pout w =
     (let out = path_join outdir (''_gapcloser.'' @ str_nat i @ ''.'' @ str_int j @ ''.fa'');
          w1 = (if verbose then write_stderr (Iteration i j) w else w)
      in case write_file (out @ ''.log'') [] w1 of
           (Inl e, w2) \<Rightarrow> (Inl e, w2)
         | (Inr u, w2) \<Rightarrow>
             (case run_collaborator (gapcloser env pout configFn out)
                     (record_call (GapCloser pout configFn out) w2) of
                (Inl e, w3) \<Rightarrow> (Inl e, w3)
              | (Inr u, w3) \<Rightarrow> gapcloser_rounds env outdir verbose configFn i js out w3))"

text \<open>
  The loop over the library sets, numbered from \<open>i\<close>; a set without a configuration is
  passed over. \<^verbatim>\<open>maxReadLen\<close> has its default, 150.
\<close>

fun gapclosing_sets ::
  "env \<Rightarrow> options \<Rightarrow> nat \<Rightarrow> libset list \<Rightarrow> string \<Rightarrow> world \<Rightarrow> (error + string) \<times> world" where
  "gapclosing_sets env opts i [] pout w = (Inr pout, w)"
| "gapclosing_sets env opts i (lib # libs) pout w =
     (let configFn = path_join (opt_outdir opts) (''_gapcloser.'' @ str_nat i @ ''.conf'')
      in case prepare_gapcloser (opt_outdir opts) configFn lib 150 (opt_verbose opts) w of
           (Inl e, w1) \<Rightarrow> (Inl e, w1)
         | (Inr prepared, w1) \<Rightarrow>
             if prepared = Some True then
               (case gapcloser_rounds env (opt_outdir opts) (opt_verbose opts) configFn i
                       [1..opt_iters opts] pout w1 of
                  (Inl e, w2) \<Rightarrow> (Inl e, w2)
                | (Inr pout', w2) \<Rightarrow> gapclosing_sets env opts (i + 1) libs pout' w2)
             else gapclosing_sets env opts (i + 1) libs pout w1)"

definition run_gapclosing ::
  "env \<Rightarrow> options \<Rightarrow> libset list \<Rightarrow> string \<Rightarrow> string \<Rightarrow> world \<Rightarrow> (error + unit) \<times> world" where
  "run_gapclosing env opts libraries nogapsFname scaffoldsFname w =
     (case gapclosing_sets env opts 1 libraries scaffoldsFname w of
        (Inl e, w1) \<Rightarrow> (Inl e, w1)
      | (Inr pout, w1) \<Rightarrow> symlink pout nogapsFname w1)"

subsection \<open>redundants: the stages\<close>

text \<open>
  The three optional stages of \<^verbatim>\<open>redundants\<close>, each the \<^verbatim>\<open>if\<close>/\<^verbatim>\<open>else\<close> of the
  source: the stage runs, or its output name is linked to its input.
\<close>

definition reduction_stage ::
  "env \<Rightarrow> options \<Rightarrow> string \<Rightarrow> string \<Rightarrow> libset list \<Rightarrow> int \<Rightarrow> world \<Rightarrow> (error + unit) \<times> world" where
  "reduction_stage env opts contigsFname reducedFname libraries limit w =
     (if opt_reduction opts then
        let w1 = (if opt_verbose opts
                  then write_stderr (Banner ''#file name ...'') (write_stderr (Banner ''Reduction...'') w)
                  else w)
        in case write_file reducedFname [] w1 of
             (Inl e, w2) \<Rightarrow> (Inl e, w2)
           | (Inr u, w2) \<Rightarrow>
               if \<not> isfile w2 contigsFname then (Inl IOError, w2)
               else run_collaborator (fasta2homozygous env reducedFname contigsFname libraries limit)
                      (record_call (Fasta2Homozygous reducedFname contigsFname) w2)
      else symlink contigsFname reducedFname w)"

definition scaffolding_stage ::
  "nat \<Rightarrow> env \<Rightarrow> options \<Rightarrow> string \<Rightarrow> libset list \<Rightarrow> string \<Rightarrow> int \<Rightarrow> world
     \<Rightarrow> ((error + libset list) \<times> world) option" where
  "scaffolding_stage fuel env opts scaffoldsFname libraries reducedFname limit w =
     (if opt_scaffolding opts then
        run_scaffolding fuel env opts scaffoldsFname libraries reducedFname limit
          (if opt_verbose opts then write_stderr (Banner ''Scaffolding...'') w else w)
      else (case symlink reducedFname scaffoldsFname w of
              (Inl e, w1) \<Rightarrow> Some (Inl e, w1)
            | (Inr u, w1) \<Rightarrow> Some (Inr libraries, w1)))"

definition gapclosing_stage ::
  "env \<Rightarrow> options \<Rightarrow> string \<Rightarrow> string \<Rightarrow> libset list \<Rightarrow> world \<Rightarrow> (error + unit) \<times> world" where
  "gapclosing_stage env opts nogapsFname scaffoldsFname libraries w =
     (if opt_gapclosing opts \<and> libraries \<noteq> [] then
        run_gapclosing env opts libraries nogapsFname scaffoldsFname
          (if opt_verbose opts then write_stderr (Banner ''Gap closing...'') w else w)
      else symlink scaffoldsFname nogapsFname w)"

text \<open>The report: one line of summary statistics for each assembly file, in order.\<close>

fun report_stats :: "env \<Rightarrow> string list \<Rightarrow> world \<Rightarrow> (error + unit) \<times> world" where
  "report_stats env [] w = (Inr (), w)"
| "report_stats env (fn # fns) w =
     (if \<not> isfile w fn then (Inl IOError, w)
      else
        let w1 = record_call (FastaStats fn) w in
        case fasta_stats env fn (files w1) of
          Inl e \<Rightarrow> (Inl e, w1)
        | Inr line \<Rightarrow> report_stats env fns (write_stderr (StatsLine line) w1))"

definition report_stage ::
  "env \<Rightarrow> options \<Rightarrow> string \<Rightarrow> string \<Rightarrow> string \<Rightarrow> string \<Rightarrow> world \<Rightarrow> (error + unit) \<times> world" where
  "report_stage env opts contigsFname reducedFname scaffoldsFname nogapsFname w =
     (let w1 = (if opt_verbose opts then write_stderr (Banner ''Reporting statistics...'') w else w);
          fastas = [contigsFname, reducedFname]
                   @ sort (glob env (path_join (opt_outdir opts) ''_sspace.*.fa'') (files w1))
                   @ [scaffoldsFname]
                   @ sort (glob env (path_join (opt_outdir opts) ''_gap*.fa'') (files w1))
                   @ [nogapsFname]
      in report_stats env fastas (write_stderr (Banner ''#fname ...'') w1))"

subsection \<open>redundants\<close>

text \<open>
  The pipeline. An output directory that exists ends the run at once with
  \<^verbatim>\<open>sys.exit(1)\<close>; otherwise it is created, the assembly is linked as
  \<^verbatim>\<open>contigs.fa\<close>, the libraries are classified, and the stages run in order. The first
  argument bounds the passes of the scaffolding loop.
\<close>

definition redundants :: "nat \<Rightarrow> env \<Rightarrow> options \<Rightarrow> world \<Rightarrow> ((error + unit) \<times> world) option" where
  "redundants fuel env opts w =
     (let outdir = opt_outdir opts in
      if isdir w outdir then Some (Inl (SystemExit 1), write_stderr (DirectoryExists outdir) w)
      else
        (case makedirs outdir w of
           (Inl e, w1) \<Rightarrow> Some (Inl e, w1)
         | (Inr u, w1) \<Rightarrow>
             let contigsFname = path_join outdir ''contigs.fa'';
                 reducedFname = path_join outdir ''contigs.reduced.fa'';
                 scaffoldsFname = path_join outdir ''scaffolds.fa'';
                 nogapsFname = path_join outdir ''scaffolds.filled.fa''
             in (case symlink (opt_fasta opts) contigsFname w1 of
                   (Inl e, w2) \<Rightarrow> Some (Inl e, w2)
                 | (Inr u, w2) \<Rightarrow>
                     (case get_read_limit env (opt_fastq opts) contigsFname (opt_mapq opts)
                             (opt_threads opts) (opt_readLimit opts) (opt_verbose opts) w2 of
                        (Inl e, w3) \<Rightarrow> Some (Inl e, w3)
                      | (Inr (limit, libraries), w3) \<Rightarrow>
                          (case reduction_stage env opts contigsFname reducedFname libraries limit w3 of
                             (Inl e, w4) \<Rightarrow> Some (Inl e, w4)
                           | (Inr u, w4) \<Rightarrow>
                               (case scaffolding_stage fuel env opts scaffoldsFname libraries
                                       reducedFname limit w4 of
                                  None \<Rightarrow> None
                                | Some (Inl e, w5) \<Rightarrow> Some (Inl e, w5)
                                | Some (Inr libraries', w5) \<Rightarrow>
                                    (case gapclosing_stage env opts nogapsFname scaffoldsFname
                                            libraries' w5 of
                                       (Inl e, w6) \<Rightarrow> Some (Inl e, w6)
                                     | (Inr u, w6) \<Rightarrow>
                                         Some (report_stage env opts contigsFname reducedFname
                                                 scaffoldsFname nogapsFname w6))))))))"

subsection \<open>Vocabulary for forwarding\<close>


subsection \<open>The grouping rule in the specification's words\<close>

text \<open>
  The datasets are taken in the given order; a dataset opens a new group when there is no
  group yet, or when its median insert exceeds 1.5 times the recorded (truncated) mean
  insert of the first member of the group opened last; otherwise it joins that group.
\<close>

fun spec_groups :: "dataset list list \<Rightarrow> dataset list \<Rightarrow> dataset list list" where
  "spec_groups gs [] = gs"
| "spec_groups gs (d # ds) =
     (if gs = [] \<or> 1.5 * real_of_int (py_int (ismean (hd (last gs)))) < ismedian d
      then spec_groups (gs @ [[d]]) ds
      else spec_groups (butlast gs @ [last gs @ [d]]) ds)"

subsection \<open>The expected trace of the scaffolding loop\<close>

text \<open>
  The scaffolder invocations of one library set, numbered \<open>i\<close>, over the rounds \<open>js\<close>:
  round \<open>j\<close> writes under \<^verbatim>\<open>_sspace.i.j\<close> and reads the assembly left by the round
  before it (\<open>pout\<close> for the first); \<open>round_end\<close> is the assembly the last round leaves.
\<close>

fun round_calls :: "string \<Rightarrow> libset \<Rightarrow> nat \<Rightarrow> int list \<Rightarrow> string \<Rightarrow> call list" where
  "round_calls outdir lib i [] pout = []"
| "round_calls outdir lib i (j # js) pout =
     Fastq2Sspace (path_join outdir (''_sspace.'' @ str_nat i @ ''.'' @ str_int j)) pout lib
     # round_calls outdir lib i js
         (path_join outdir (''_sspace.'' @ str_nat i @ ''.'' @ str_int j) @ ''.fa'')"

fun round_end :: "string \<Rightarrow> nat \<Rightarrow> int list \<Rightarrow> string \<Rightarrow> string" where
  "round_end outdir i [] pout = pout"
| "round_end outdir i (j # js) pout =
     round_end outdir i js (path_join outdir (''_sspace.'' @ str_nat i @ ''.'' @ str_int j) @ ''.fa'')"

text \<open>
  The passes of the outer loop. \<open>libs\<close> is the classification in force and \<open>rs\<close> lists
  the classifications that replaced it, one after each pass. Pass number \<open>i\<close> (counted
  from 0) runs exactly when the classification in force has a set at index \<open>i\<close>, uses
  that set, and ends with the request for fresh statistics against the assembly it left;
  the loop stops at the first classification that has no set at the index reached.
\<close>

fun passes :: "nat \<Rightarrow> libset list \<Rightarrow> libset list list \<Rightarrow> bool" where
  "passes i libs [] = (\<not> i < length libs)"
| "passes i libs (r # rs) = (i < length libs \<and> passes (i + 1) r rs)"

fun pass_calls :: "options \<Rightarrow> int \<Rightarrow> nat \<Rightarrow> libset list \<Rightarrow> libset list list \<Rightarrow> string \<Rightarrow> call list" where
  "pass_calls opts limit i libs [] pout = []"
| "pass_calls opts limit i libs (r # rs) pout =
     round_calls (opt_outdir opts) (libs ! i) (i + 1) [1..opt_iters opts] pout
     @ [Fastq2InsertSize (opt_fastq opts)
          (round_end (opt_outdir opts) (i + 1) [1..opt_iters opts] pout)
          (opt_mapq opts) (opt_threads opts) (sample_cap limit)]
     @ pass_calls opts limit (i + 1) r rs
         (round_end (opt_outdir opts) (i + 1) [1..opt_iters opts] pout)"

text \<open>
  A classification is a refreshed one when it classifies an answer of the statistics
  collaborator for these reads, asked with the cap that belongs to the limit.
\<close>

definition refreshed :: "env \<Rightarrow> options \<Rightarrow> int \<Rightarrow> libset list \<Rightarrow> bool" where
  "refreshed env opts limit r =
     (\<exists>fasta fs libdata fs' rd msgs.
        fastq2insert_size env (opt_fastq opts) fasta (opt_mapq opts) (opt_threads opts)
            (sample_cap limit) fs = (Inr libdata, fs')
        \<and> classify rd libdata = Inr (r, msgs))"

text \<open>
  Options with the three optional stages switched off, and the run directory as it is
  when the first of them is reached: it holds the link \<^verbatim>\<open>contigs.fa\<close> to the assembly.
\<close>

definition ex_opts_off :: options where
  "ex_opts_off = ex_opts\<lparr>opt_reduction := False, opt_scaffolding := False, opt_gapclosing := False\<rparr>"


subsection \<open>Vocabulary for the run directory\<close>

text \<open>
  A world has the directory \<open>p\<close> (seen from the working directory \<open>c\<close>) when the node at
  \<open>p\<close> is a directory. The collaborators keep a directory when none of them removes or
  replaces it.
\<close>

definition has_dir :: "string \<Rightarrow> string \<Rightarrow> world \<Rightarrow> bool" where
  "has_dir c p w = (cwd w = c \<and> files w p = Some Directory)"

definition keeps_directory :: "env \<Rightarrow> string \<Rightarrow> bool" where
  "keeps_directory env p =
     (\<forall>fs. fs p = Some Directory \<longrightarrow>
        (\<forall>fastq fasta mapq threads cap.
           snd (fastq2insert_size env fastq fasta mapq threads cap fs) p = Some Directory)
      \<and> (\<forall>out inp libs limit. snd (fasta2homozygous env out inp libs limit fs) p = Some Directory)
      \<and> (\<forall>out inp lib. snd (fastq2sspace env out inp lib fs) p = Some Directory)
      \<and> (\<forall>inp conf out. snd (gapcloser env inp conf out fs) p = Some Directory))"

text \<open>Example collaborators that leave the file system as it is.\<close>

definition ex_env_idle :: env where
  "ex_env_idle =
     ex_env\<lparr>fasta2homozygous := (\<lambda>out inp libs limit fs. (Inr (), fs)),
            fastq2sspace := (\<lambda>out inp lib fs. (Inr (), fs)),
            gapcloser := (\<lambda>inp conf out fs. (Inr (), fs))\<rparr>"

section \<open>Properties\<close>

lemma fold_max_Max: "fold max xs (x::int) = Max (set (x # xs))"
  by (rule Max.set_eq_fold [symmetric])

lemma py_index_first:
  "v \<in> set xs \<Longrightarrow> \<exists>k. py_index xs v = Inr k \<and> k < length xs \<and> xs ! k = v \<and> (\<forall>j<k. xs ! j \<noteq> v)"
proof (induction xs)
  case Nil
  then show ?case by simp
next
  case (Cons x xs)
  show ?case
  proof (cases "x = v")
    case True
    then show ?thesis by simp
  next
    case False
    with Cons.prems have "v \<in> set xs" by simp
    from Cons.IH [OF this] obtain k where k: "py_index xs v = Inr k" "k < length xs" "xs ! k = v" "\<forall>j<k. xs ! j \<noteq> v"
      by blast
    have "\<forall>j<Suc k. (x # xs) ! j \<noteq> v"
      using False k(4) by (auto simp: nth_Cons split: nat.splits)
    with k False show ?thesis by simp
  qed
qed

lemma py_max_Max: "xs \<noteq> [] \<Longrightarrow> py_max xs = Inr (Max (set xs))"
proof (cases xs)
  case Nil
  assume "xs \<noteq> []"
  with Nil show ?thesis by simp
next
  case (Cons x ys)
  show ?thesis unfolding Cons py_max.simps fold_max_Max ..
qed

text \<open>get_orientation on a non-empty vector of at most four counts\<close>
lemma get_orientation_cases:
  assumes "ps \<noteq> []" "length ps \<le> 4"
  shows "\<exists>k. k < length ps \<and> ps ! k = Max (set ps) \<and> (\<forall>j<k. ps ! j < ps ! k) \<and>
     get_orientation ps a b =
       (if sum_list ps = 0 then Inl ZeroDivisionError
        else Inr (orientations ! k,
                  if 100 * real_of_int (Max (set ps)) / real_of_int (sum_list ps) < 90
                  then [PoorQuality (orientations ! k) (100 * real_of_int (Max (set ps)) / real_of_int (sum_list ps)) a b ps]
                  else []))"
proof -
  have mx: "py_max ps = Inr (Max (set ps))" using assms(1) by (rule py_max_Max)
  have "Max (set ps) \<in> set ps" using assms(1) by (intro Max_in) simp_all
  from py_index_first [OF this] obtain k where k: "py_index ps (Max (set ps)) = Inr k"
    "k < length ps" "ps ! k = Max (set ps)" "\<forall>j<k. ps ! j \<noteq> Max (set ps)" by blast
  have lt: "\<forall>j<k. ps ! j < ps ! k"
  proof (intro allI impI)
    fix j assume j: "j < k"
    then have "ps ! j \<in> set ps" using k(2) by simp
    then have "ps ! j \<le> Max (set ps)" by simp
    with k(4) j k(3) show "ps ! j < ps ! k" by force
  qed
  have "\<not> length orientations \<le> k" using k(2) assms(2) by (simp add: orientations_def)
  then have "get_orientation ps a b =
       (if sum_list ps = 0 then Inl ZeroDivisionError
        else Inr (orientations ! k,
                  if 100 * real_of_int (Max (set ps)) / real_of_int (sum_list ps) < 90
                  then [PoorQuality (orientations ! k) (100 * real_of_int (Max (set ps)) / real_of_int (sum_list ps)) a b ps]
                  else []))"
    by (simp add: get_orientation_def mx k(1) Let_def)
  with k(2,3) lt show ?thesis by blast
qed

lemma add_library_Inr_form:
  assumes "add_library rd (libs, i, ms) d = Inr (libs', i', ms')"
  obtains new ori w where "new_set_needed libs d = Inr new"
    and "get_orientation (pairs d) (fq1 d) (fq2 d) = Inr (ori, w)"
    and "ismean d \<noteq> 0" and "rd (fq1 d)" and "rd (fq2 d)"
    and "libs' = butlast (if new then libs @ [empty_libset] else libs)
                 @ [append_library (last (if new then libs @ [empty_libset] else libs))
                      (''lib'' @ str_nat (if new then 1 else i)) (fq1 d) (fq2 d) ori
                      (py_int (ismean d)) (if 1 < isstd d / ismean d then 1 else isstd d / ismean d)]"
    and "i' = (if new then 1 else i) + 1"
proof -
  obtain new where n: "new_set_needed libs d = Inr new"
    using assms by (cases "new_set_needed libs d") (simp_all add: add_library_def)
  have r1: "rd (fq1 d)"
  proof (rule ccontr)
    assume "\<not> rd (fq1 d)"
    with assms n show False by (simp add: add_library_def Let_def)
  qed
  have r2: "rd (fq2 d)"
  proof (rule ccontr)
    assume "\<not> rd (fq2 d)"
    with assms n r1 show False by (simp add: add_library_def Let_def)
  qed
  obtain ori w where o: "get_orientation (pairs d) (fq1 d) (fq2 d) = Inr (ori, w)"
  proof (cases "get_orientation (pairs d) (fq1 d) (fq2 d)")
    case (Inl e)
    with assms n r1 r2 show ?thesis by (simp add: add_library_def Let_def)
  next
    case (Inr p)
    with that show ?thesis by (cases p) simp
  qed
  have m: "ismean d \<noteq> 0"
  proof
    assume "ismean d = 0"
    with assms n r1 r2 o show False by (simp add: add_library_def Let_def)
  qed
  from assms n r1 r2 o m
  have "libs' = butlast (if new then libs @ [empty_libset] else libs)
                 @ [append_library (last (if new then libs @ [empty_libset] else libs))
                      (''lib'' @ str_nat (if new then 1 else i)) (fq1 d) (fq2 d) ori
                      (py_int (ismean d)) (if 1 < isstd d / ismean d then 1 else isstd d / ismean d)]"
    and "i' = (if new then 1 else i) + 1"
    by (simp_all add: add_library_def Let_def split del: if_split)
  with n o m r1 r2 show ?thesis by (rule that)
qed

subsection \<open>The clustering loop, step by step\<close>

lemma py_int_mono: "x \<le> y \<Longrightarrow> py_int x \<le> py_int y"
proof -
  assume xy: "x \<le> y"
  show ?thesis
  proof (cases "0 \<le> x")
    case True
    with xy show ?thesis by (simp add: py_int_def floor_mono)
  next
    case False
    show ?thesis
    proof (cases "0 \<le> y")
      case True
      have "\<lceil>x\<rceil> \<le> 0" using False by (simp add: ceiling_le_iff)
      moreover have "0 \<le> \<lfloor>y\<rfloor>" using True by simp
      ultimately have "\<lceil>x\<rceil> \<le> \<lfloor>y\<rfloor>" by (rule order_trans)
      then show ?thesis using False True by (simp add: py_int_def)
    next
      case nonneg: False
      with False xy show ?thesis by (simp add: py_int_def ceiling_mono)
    qed
  qed
qed

lemma members_append_library:
  assumes "length (libRs s) = length (libFs s)" "length (libIS s) = length (libFs s)"
    "length (libISStDev s) = length (libFs s)"
  shows "members (append_library s n f r ori m sf) = members s @ [(f, r, m, sf)]"
  using assms by (simp add: members_def append_library_def)

lemma wf_append_library:
  assumes "length (libnames s) = length (libFs s)" "length (libRs s) = length (libFs s)"
    "length (orients s) = length (libFs s)" "length (libIS s) = length (libFs s)"
    "length (libISStDev s) = length (libFs s)"
  shows "wf_libset (append_library s n f r ori m sf)"
  using assms by (simp add: wf_libset_def append_library_def)

lemma new_set_needed_Nil: "new_set_needed [] d = Inr True"
  by (simp add: new_set_needed_def)

lemma new_set_needed_False: "new_set_needed libs d = Inr False \<Longrightarrow> libs \<noteq> []"
  by (auto simp: new_set_needed_def)

lemma add_library_step:
  assumes step: "add_library rd (libs, i, ms) d = Inr (libs', i', ms')"
    and wf: "\<forall>s\<in>set libs. wf_libset s"
  shows "(\<forall>s\<in>set libs'. wf_libset s) \<and>
         concat (map members libs') = concat (map members libs) @ [entry d]"
proof -
  from step obtain new ori w where n: "new_set_needed libs d = Inr new"
    and l: "libs' = butlast (if new then libs @ [empty_libset] else libs)
                 @ [append_library (last (if new then libs @ [empty_libset] else libs))
                      (''lib'' @ str_nat (if new then 1 else i)) (fq1 d) (fq2 d) ori
                      (py_int (ismean d)) (if 1 < isstd d / ismean d then 1 else isstd d / ismean d)]"
    by (rule add_library_Inr_form)
  show ?thesis
  proof (cases new)
    case True
    then have l': "libs' = libs @ [append_library empty_libset (''lib'' @ str_nat 1) (fq1 d) (fq2 d) ori
                      (py_int (ismean d)) (if 1 < isstd d / ismean d then 1 else isstd d / ismean d)]"
      using l by simp
    have m: "members (append_library empty_libset (''lib'' @ str_nat 1) (fq1 d) (fq2 d) ori
                      (py_int (ismean d)) (if 1 < isstd d / ismean d then 1 else isstd d / ismean d)) = [entry d]"
      by (simp add: members_def append_library_def empty_libset_def entry_def)
    have w: "wf_libset (append_library empty_libset (''lib'' @ str_nat 1) (fq1 d) (fq2 d) ori
                      (py_int (ismean d)) (if 1 < isstd d / ismean d then 1 else isstd d / ismean d))"
      by (rule wf_append_library) (simp_all add: empty_libset_def)
    from l' m w wf show ?thesis by (simp del: append_library_def)
  next
    case False
    with n have ne: "libs \<noteq> []" by (simp add: new_set_needed_False)
    then have split: "libs = butlast libs @ [last libs]" by simp
    have wl: "wf_libset (last libs)" using wf ne by simp
    from False l have l': "libs' = butlast libs @ [append_library (last libs) (''lib'' @ str_nat i) (fq1 d) (fq2 d) ori
                      (py_int (ismean d)) (if 1 < isstd d / ismean d then 1 else isstd d / ismean d)]"
      by simp
    have m: "members (append_library (last libs) (''lib'' @ str_nat i) (fq1 d) (fq2 d) ori
                      (py_int (ismean d)) (if 1 < isstd d / ismean d then 1 else isstd d / ismean d))
             = members (last libs) @ [entry d]"
      unfolding entry_def using wl by (intro members_append_library) (simp_all add: wf_libset_def)
    have w: "wf_libset (append_library (last libs) (''lib'' @ str_nat i) (fq1 d) (fq2 d) ori
                      (py_int (ismean d)) (if 1 < isstd d / ismean d then 1 else isstd d / ismean d))"
      using wl by (intro wf_append_library) (simp_all add: wf_libset_def)
    have c: "concat (map members libs) = concat (map members (butlast libs)) @ members (last libs)"
      by (subst split) (simp del: append_butlast_last_id)
    have wb: "\<forall>s\<in>set (butlast libs). wf_libset s"
      using wf by (auto dest: in_set_butlastD)
    from l' m w c wb show ?thesis by simp
  qed
qed

lemma loop_members:
  assumes "get_libraries_loop rd (libs, i, ms) ds = Inr (libs', i', ms')"
    and "\<forall>s\<in>set libs. wf_libset s"
  shows "(\<forall>s\<in>set libs'. wf_libset s) \<and>
         concat (map members libs') = concat (map members libs) @ map entry ds"
  using assms
proof (induction ds arbitrary: libs i ms)
  case Nil
  then show ?case by simp
next
  case (Cons d ds)
  from Cons.prems(1) obtain st where st: "add_library rd (libs, i, ms) d = Inr st"
    and rest: "get_libraries_loop rd st ds = Inr (libs', i', ms')"
    by (cases "add_library rd (libs, i, ms) d") simp_all
  obtain l1 i1 m1 where st': "st = (l1, i1, m1)" by (cases st)
  from add_library_step [OF st [unfolded st'] Cons.prems(2)]
  have w1: "\<forall>s\<in>set l1. wf_libset s"
    and c1: "concat (map members l1) = concat (map members libs) @ [entry d]" by blast+
  from Cons.IH [OF rest [unfolded st'] w1] c1 show ?case by simp
qed

lemma classify_members:
  assumes "classify rd libdata = Inr (libs, ws)"
  shows "(\<forall>s\<in>set libs. wf_libset s) \<and>
         concat (map members libs) = map entry (sort_key ismean libdata)"
proof -
  from assms obtain i where "get_libraries_loop rd ([], 0, []) (sort_key ismean libdata) = Inr (libs, i, ws)"
    by (auto simp: classify_def split: sum.splits)
  from loop_members [OF this] show ?thesis by simp
qed

lemma loop_append:
  "get_libraries_loop rd st (xs @ ys) =
     (case get_libraries_loop rd st xs of Inl e \<Rightarrow> Inl e | Inr st' \<Rightarrow> get_libraries_loop rd st' ys)"
  by (induction xs arbitrary: st) (auto split: sum.splits)

lemma sorted_hd_concat:
  "sorted (concat xss) \<Longrightarrow> \<forall>xs\<in>set xss. xs \<noteq> [] \<Longrightarrow> sorted (map hd xss)"
proof (induction xss)
  case Nil
  then show ?case by simp
next
  case (Cons xs xss)
  from Cons.prems have s1: "sorted (concat xss)" and le: "\<forall>x\<in>set xs. \<forall>y\<in>set (concat xss). x \<le> y"
    by (auto simp: sorted_append)
  have "hd xs \<in> set xs" using Cons.prems(2) by simp
  moreover have "\<forall>ys\<in>set xss. hd ys \<in> set (concat xss)"
    using Cons.prems(2) by (auto intro!: bexI)
  ultimately have "\<forall>ys\<in>set xss. hd xs \<le> hd ys" using le by blast
  with Cons.IH [OF s1] Cons.prems(2) show ?case by simp
qed

lemma zip4_third:
  assumes "length as = length bs" "length bs = length cs" "length cs = length es"
  shows "map (\<lambda>e. fst (snd (snd e))) (zip as (zip bs (zip cs es))) = cs"
  using assms by (induction as bs cs es rule: list_induct4) simp_all

lemma zip4_fourth:
  assumes "length as = length bs" "length bs = length cs" "length cs = length es"
  shows "map (\<lambda>e. snd (snd (snd e))) (zip as (zip bs (zip cs es))) = es"
  using assms by (induction as bs cs es rule: list_induct4) simp_all

lemma third_members:
  "wf_libset s \<Longrightarrow> map (\<lambda>e. fst (snd (snd e))) (members s) = libIS s"
  unfolding members_def by (rule zip4_third) (simp_all add: wf_libset_def)

lemma fourth_members:
  "wf_libset s \<Longrightarrow> map (\<lambda>e. snd (snd (snd e))) (members s) = libISStDev s"
  unfolding members_def by (rule zip4_fourth) (simp_all add: wf_libset_def)

lemma concat_column:
  assumes "\<forall>s\<in>set libs. map f (members s) = col s"
  shows "concat (map col libs) = map f (concat (map members libs))"
  using assms by (induction libs) (simp_all add: map_concat)

lemma classify_libIS:
  assumes "classify rd libdata = Inr (libs, ws)"
  shows "concat (map libIS libs) = map (\<lambda>d. py_int (ismean d)) (sort_key ismean libdata)"
proof -
  from classify_members [OF assms] have wf: "\<forall>s\<in>set libs. wf_libset s"
    and c: "concat (map members libs) = map entry (sort_key ismean libdata)" by blast+
  have "concat (map libIS libs) = map (\<lambda>e. fst (snd (snd e))) (concat (map members libs))"
    by (rule concat_column) (simp add: wf third_members)
  with c show ?thesis by (simp add: entry_def comp_def)
qed

lemma classify_libISStDev:
  assumes "classify rd libdata = Inr (libs, ws)"
  shows "concat (map libISStDev libs)
           = map (\<lambda>d. if 1 < isstd d / ismean d then 1 else isstd d / ismean d) (sort_key ismean libdata)"
proof -
  from classify_members [OF assms] have wf: "\<forall>s\<in>set libs. wf_libset s"
    and c: "concat (map members libs) = map entry (sort_key ismean libdata)" by blast+
  have "concat (map libISStDev libs) = map (\<lambda>e. snd (snd (snd e))) (concat (map members libs))"
    by (rule concat_column) (simp add: wf fourth_members)
  with c show ?thesis by (simp add: entry_def comp_def)
qed

lemma sorted_map_mono:
  fixes f :: "real \<Rightarrow> int"
  assumes "sorted xs" and "\<And>x y. x \<le> y \<Longrightarrow> f x \<le> f y"
  shows "sorted (map f xs)"
  using assms by (induction xs) auto

lemma sorted_means: "sorted (map (\<lambda>d. py_int (ismean d)) (sort_key ismean libdata))"
proof -
  have s: "sorted (map ismean (sort_key ismean libdata))" by (rule sorted_sort_key)
  have "sorted (map py_int (map ismean (sort_key ismean libdata)))"
    using s by (rule sorted_map_mono) (rule py_int_mono)
  then show ?thesis by (simp add: comp_def)
qed

text \<open>
  C8. Whenever classification returns, its sets partition the input: read set after set,
  the members are exactly the input datasets in ascending order of mean insert (so every
  dataset is in one set, once), every set has a member and six lists of one length, and
  the sets are in ascending order of the mean insert recorded for their first member.
\<close>

theorem classify_partition:
  assumes "classify rd libdata = Inr (libs, ws)"
  shows "concat (map members libs) = map entry (sort_key ismean libdata)
       \<and> mset (concat (map members libs)) = image_mset entry (mset libdata)
       \<and> (\<forall>s\<in>set libs. wf_libset s)
       \<and> sorted (map (\<lambda>s. hd (libIS s)) libs)"
proof -
  from classify_members [OF assms] have wf: "\<forall>s\<in>set libs. wf_libset s"
    and c: "concat (map members libs) = map entry (sort_key ismean libdata)" by blast+
  have m: "mset (concat (map members libs)) = image_mset entry (mset libdata)"
    by (simp add: c)
  have "sorted (concat (map libIS libs))"
    by (simp only: classify_libIS [OF assms] sorted_means)
  moreover have "\<forall>xs\<in>set (map libIS libs). xs \<noteq> []"
    using wf by (auto simp: wf_libset_def)
  ultimately have "sorted (map hd (map libIS libs))" by (rule sorted_hd_concat)
  then have "sorted (map (\<lambda>s. hd (libIS s)) libs)" by (simp add: comp_def)
  with c m wf show ?thesis by blast
qed

lemmas ex_defs = ex_d300_def ex_d305_def ex_d1200_def ex_dzero_def ex_set1_def ex_set2_def

lemmas classify_eval = classify_def add_library_def new_set_needed_def get_orientation_def
  orientations_def empty_libset_def append_library_def py_int_def Let_def str_nat.simps

lemma ex_classify:
  "classify (\<lambda>_. True) [ex_d1200, ex_d300, ex_d305]
     = Inr ([ex_set1, ex_set2], [HighlyVariable 1200 1300 ''c_1.fq'' ''c_2.fq''])"
  by (simp add: ex_defs classify_eval)

lemma ex_sorted: "sort_key ismean [ex_d1200, ex_d300, ex_d305] = [ex_d300, ex_d305, ex_d1200]"
  by (simp add: ex_defs)

theorem classify_partition_witness:
  "classify (\<lambda>_. True) [ex_d1200, ex_d300, ex_d305]
     = Inr ([ex_set1, ex_set2], [HighlyVariable 1200 1300 ''c_1.fq'' ''c_2.fq''])
   \<and> concat (map members [ex_set1, ex_set2]) = map entry [ex_d300, ex_d305, ex_d1200]
   \<and> sorted (map (\<lambda>s. hd (libIS s)) [ex_set1, ex_set2])"
  using classify_partition [OF ex_classify] ex_classify ex_sorted by simp

lemma wf_libIS: "wf_libset s \<Longrightarrow> libIS s \<noteq> []"
  by (auto simp: wf_libset_def)

lemma new_set_needed_wf:
  assumes "\<forall>s\<in>set libs. wf_libset s"
  shows "new_set_needed libs d
           = Inr (libs = [] \<or> 1.5 * real_of_int (hd (libIS (last libs))) < ismedian d)"
proof (cases "libs = []")
  case True
  then show ?thesis by (simp add: new_set_needed_def)
next
  case False
  with assms have "libIS (last libs) \<noteq> []" by (simp add: wf_libIS)
  then obtain m ms where "libIS (last libs) = m # ms" by (cases "libIS (last libs)") auto
  with False show ?thesis by (simp add: new_set_needed_def)
qed

lemma add_library_total:
  assumes rd: "rd (fq1 d)" "rd (fq2 d)" and len: "length (pairs d) = 4"
    and wf: "\<forall>s\<in>set libs. wf_libset s"
  shows "(sum_list (pairs d) = 0 \<or> ismean d = 0
            \<longrightarrow> add_library rd (libs, i, ms) d = Inl ZeroDivisionError)
       \<and> (sum_list (pairs d) \<noteq> 0 \<and> ismean d \<noteq> 0
            \<longrightarrow> (\<exists>libs' i' ms'. add_library rd (libs, i, ms) d = Inr (libs', i', ms')))"
proof -
  from len have ne: "pairs d \<noteq> []" and le: "length (pairs d) \<le> 4" by auto
  from get_orientation_cases [OF ne le, of "fq1 d" "fq2 d"]
  obtain r where g: "get_orientation (pairs d) (fq1 d) (fq2 d)
                      = (if sum_list (pairs d) = 0 then Inl ZeroDivisionError else Inr r)"
    by blast
  obtain ori w where r: "r = (ori, w)" by (cases r)
  note n = new_set_needed_wf [OF wf, of d]
  show ?thesis
  proof (cases "sum_list (pairs d) = 0")
    case True
    with g rd n show ?thesis by (simp add: add_library_def Let_def)
  next
    case False
    with g r have g': "get_orientation (pairs d) (fq1 d) (fq2 d) = Inr (ori, w)" by simp
    show ?thesis
    proof (cases "ismean d = 0")
      case True
      with g' rd n show ?thesis by (simp add: add_library_def Let_def)
    next
      case nz: False
      with g' rd n False show ?thesis by (simp add: add_library_def Let_def)
    qed
  qed
qed

lemma loop_total:
  assumes "\<forall>d\<in>set ds. rd (fq1 d) \<and> rd (fq2 d) \<and> length (pairs d) = 4"
    and "\<forall>s\<in>set libs. wf_libset s"
  shows "((\<forall>d\<in>set ds. sum_list (pairs d) \<noteq> 0 \<and> ismean d \<noteq> 0)
            \<longrightarrow> (\<exists>st. get_libraries_loop rd (libs, i, ms) ds = Inr st))
       \<and> ((\<exists>d\<in>set ds. sum_list (pairs d) = 0 \<or> ismean d = 0)
            \<longrightarrow> get_libraries_loop rd (libs, i, ms) ds = Inl ZeroDivisionError)"
  using assms
proof (induction ds arbitrary: libs i ms)
  case Nil
  then show ?case by simp
next
  case (Cons d ds)
  from Cons.prems(1) have d: "rd (fq1 d)" "rd (fq2 d)" "length (pairs d) = 4"
    and rest: "\<forall>d\<in>set ds. rd (fq1 d) \<and> rd (fq2 d) \<and> length (pairs d) = 4" by simp_all
  note step = add_library_total [OF d Cons.prems(2), of i ms]
  show ?case
  proof (cases "sum_list (pairs d) = 0 \<or> ismean d = 0")
    case True
    with step have "add_library rd (libs, i, ms) d = Inl ZeroDivisionError" by blast
    with True show ?thesis by auto
  next
    case False
    with step obtain libs' i' ms' where s: "add_library rd (libs, i, ms) d = Inr (libs', i', ms')"
      by blast
    from add_library_step [OF s Cons.prems(2)] have wf': "\<forall>s\<in>set libs'. wf_libset s" by blast
    from Cons.IH [OF rest wf', of i' ms'] s False show ?thesis by simp
  qed
qed

text \<open>
  C10. For datasets whose files open and whose orientation counts are four non-negative
  numbers, classification returns exactly when every dataset has a positive total of
  counts and a mean insert other than zero. A dataset with all counts zero, or with a zero
  mean insert, is not skipped: the whole classification fails with ZeroDivisionError.
\<close>

theorem classify_total_iff:
  assumes "\<forall>d\<in>set libdata. rd (fq1 d) \<and> rd (fq2 d) \<and> length (pairs d) = 4
                               \<and> (\<forall>c\<in>set (pairs d). 0 \<le> c)"
  shows "((\<exists>libs ws. classify rd libdata = Inr (libs, ws))
            = (\<forall>d\<in>set libdata. 0 < sum_list (pairs d) \<and> ismean d \<noteq> 0))
       \<and> ((\<exists>d\<in>set libdata. sum_list (pairs d) = 0 \<or> ismean d = 0)
            \<longrightarrow> classify rd libdata = Inl ZeroDivisionError)"
proof -
  let ?ds = "sort_key ismean libdata"
  have pos: "0 \<le> sum_list (pairs d)" if "d \<in> set libdata" for d
    using assms that by (intro sum_list_nonneg) blast
  have a: "\<forall>d\<in>set ?ds. rd (fq1 d) \<and> rd (fq2 d) \<and> length (pairs d) = 4"
    using assms by simp
  note t = loop_total [OF a, of "[]" 0 "[]", simplified]
  have good: "(\<forall>d\<in>set libdata. 0 < sum_list (pairs d) \<and> ismean d \<noteq> 0)
               = (\<forall>d\<in>set libdata. sum_list (pairs d) \<noteq> 0 \<and> ismean d \<noteq> 0)"
    using pos by (auto simp: less_le)
  show ?thesis
  proof (cases "\<forall>d\<in>set libdata. sum_list (pairs d) \<noteq> 0 \<and> ismean d \<noteq> 0")
    case True
    with t obtain st where "get_libraries_loop rd ([], 0, []) ?ds = Inr st" by auto
    then have "\<exists>libs ws. classify rd libdata = Inr (libs, ws)"
      by (cases st) (simp add: classify_def)
    with True good show ?thesis by auto
  next
    case False
    with t have "get_libraries_loop rd ([], 0, []) ?ds = Inl ZeroDivisionError" by auto
    then have "classify rd libdata = Inl ZeroDivisionError" by (simp add: classify_def)
    with False good show ?thesis by auto
  qed
qed

theorem classify_total_iff_witness:
  "classify (\<lambda>_. True) [ex_d300, ex_dzero] = Inl ZeroDivisionError
   \<and> classify (\<lambda>_. True) [ex_d300, ex_d300\<lparr>ismean := 0\<rparr>] = Inl ZeroDivisionError
   \<and> (\<exists>libs ws. classify (\<lambda>_. True) [ex_d300, ex_d305, ex_d1200] = Inr (libs, ws))"
proof -
  have 1: "\<forall>d\<in>set [ex_d300, ex_dzero]. (\<lambda>_. True) (fq1 d) \<and> (\<lambda>_. True) (fq2 d) \<and> length (pairs d) = 4
                               \<and> (\<forall>c\<in>set (pairs d). 0 \<le> c)"
    by (simp add: ex_defs)
  have 2: "\<forall>d\<in>set [ex_d300, ex_d300\<lparr>ismean := 0\<rparr>]. (\<lambda>_. True) (fq1 d) \<and> (\<lambda>_. True) (fq2 d) \<and> length (pairs d) = 4
                               \<and> (\<forall>c\<in>set (pairs d). 0 \<le> c)"
    by (simp add: ex_defs)
  have 3: "\<forall>d\<in>set [ex_d300, ex_d305, ex_d1200]. (\<lambda>_. True) (fq1 d) \<and> (\<lambda>_. True) (fq2 d) \<and> length (pairs d) = 4
                               \<and> (\<forall>c\<in>set (pairs d). 0 \<le> c)"
    by (simp add: ex_defs)
  have a: "classify (\<lambda>_. True) [ex_d300, ex_dzero] = Inl ZeroDivisionError"
    using classify_total_iff [OF 1] by (simp add: ex_defs)
  have b: "classify (\<lambda>_. True) [ex_d300, ex_d300\<lparr>ismean := 0\<rparr>] = Inl ZeroDivisionError"
    using classify_total_iff [OF 2] by (simp add: ex_defs)
  have c: "\<exists>libs ws. classify (\<lambda>_. True) [ex_d300, ex_d305, ex_d1200] = Inr (libs, ws)"
    using classify_total_iff [OF 3] by (simp add: ex_defs)
  from a b c show ?thesis by blast
qed

subsection \<open>The cap on sampled pairs\<close>

lemma calls_run_collaborator: "calls (snd (run_collaborator f w)) = calls w"
  by (simp add: run_collaborator_def split: prod.splits)

lemma calls_get_libraries:
  "calls (snd (get_libraries env fastq fasta mapq threads limit w))
     = calls w @ [Fastq2InsertSize fastq fasta mapq threads (sample_cap limit)]"
proof -
  let ?w1 = "record_call (Fastq2InsertSize fastq fasta mapq threads (sample_cap limit)) w"
  obtain r w2 where rc: "run_collaborator (fastq2insert_size env fastq fasta mapq threads (sample_cap limit)) ?w1 = (r, w2)"
    by (cases "run_collaborator (fastq2insert_size env fastq fasta mapq threads (sample_cap limit)) ?w1")
  have "calls w2 = calls ?w1" using calls_run_collaborator [of "fastq2insert_size env fastq fasta mapq threads (sample_cap limit)" ?w1] rc by simp
  then have c: "calls w2 = calls w @ [Fastq2InsertSize fastq fasta mapq threads (sample_cap limit)]"
    by (simp add: record_call_def)
  show ?thesis
    using rc c by (simp add: get_libraries_def Let_def split: sum.splits prod.splits)
qed

lemma sample_cap_floor: "10000 \<le> sample_cap limit"
proof (cases "limit = 0 \<or> real_of_int limit < 1000000")
  case True
  then show ?thesis by (simp add: sample_cap_def)
next
  case False
  then have "1000000 \<le> limit" by simp
  then have "10000 \<le> limit div 100" by simp
  then have "(10000::real) \<le> real_of_int (limit div 100)" by linarith
  with False show ?thesis by (simp add: sample_cap_def)
qed

lemma sample_cap_eq:
  "sample_cap limit = (if limit < 1000000 then 10000 else real_of_int (limit div 100))"
  by (auto simp: sample_cap_def)

text \<open>The first half of get_read_limit: the limit and the world before classification.\<close>

lemma get_read_limit_Inr:
  assumes "get_read_limit env fastq fasta mapq threads readLimit verbose w = (Inr (limit, libs), w')"
  shows "(if readLimit = 0 then limit = 0
          else \<exists>stats size. fasta_stats env fasta (files w) = Inr stats
                 \<and> int_of_str (split_on (CHR 0x09) stats ! 2) = Inr size
                 \<and> limit = py_int (readLimit * real_of_int size))
       \<and> calls w' = calls w @ (if readLimit = 0 then [] else [FastaStats fasta])
                     @ [Fastq2InsertSize fastq fasta mapq threads (sample_cap limit)]"
proof (cases "readLimit = 0")
  case True
  with assms obtain r where g: "get_libraries env fastq fasta mapq threads 0 w = (r, w')" and l: "limit = 0"
    by (auto simp: get_read_limit_def split: sum.splits prod.splits)
  from calls_get_libraries [of env fastq fasta mapq threads 0 w] g
  have "calls w' = calls w @ [Fastq2InsertSize fastq fasta mapq threads (sample_cap 0)]" by simp
  with True l show ?thesis by simp
next
  case False
  let ?w1 = "record_call (FastaStats fasta) w"
  from assms False obtain stats where st: "fasta_stats env fasta (files ?w1) = Inr stats"
    by (cases "fasta_stats env fasta (files ?w1)") (auto simp: get_read_limit_def Let_def split: if_splits)
  from assms False st obtain size where sz: "int_of_str (split_on (CHR 0x09) stats ! 2) = Inr size"
    by (cases "int_of_str (split_on (CHR 0x09) stats ! 2)") (auto simp: get_read_limit_def Let_def split: if_splits)
  let ?limit = "py_int (readLimit * real_of_int size)"
  let ?w2 = "if verbose then write_stderr (Aligning ?limit) ?w1 else ?w1"
  from assms False st sz obtain r where g: "get_libraries env fastq fasta mapq threads ?limit ?w2 = (r, w')"
    and l: "limit = ?limit"
    by (auto simp: get_read_limit_def Let_def split: if_splits sum.splits prod.splits)
  have c2: "calls ?w2 = calls w @ [FastaStats fasta]"
    by (simp add: write_stderr_def record_call_def)
  from calls_get_libraries [of env fastq fasta mapq threads ?limit ?w2] g
  have "calls w' = calls ?w2 @ [Fastq2InsertSize fastq fasta mapq threads (sample_cap ?limit)]" by simp
  with c2 have c: "calls w' = calls w @ [FastaStats fasta] @ [Fastq2InsertSize fastq fasta mapq threads (sample_cap ?limit)]"
    by simp
  have f: "files ?w1 = files w" by (simp add: record_call_def)
  from False st [unfolded f] sz l c show ?thesis by auto
qed

text \<open>
  C4, as the code has it. Every call of \<^verbatim>\<open>get_libraries\<close> invokes the statistics
  collaborator once, with the cap \<open>sample_cap limit\<close>: one hundredth of the limit when
  the limit is at least \<open>10^6\<close>, and 10,000 (one hundredth of the floor \<open>10^6\<close>)
  otherwise, so never less than 10,000. The limit that \<^verbatim>\<open>get_read_limit\<close> hands over
  is 0 without a read-fraction limit and the truncated fraction of the assembly size
  with one.
\<close>

theorem sample_cap_passed:
  "calls (snd (get_libraries env fastq fasta mapq threads limit w))
     = calls w @ [Fastq2InsertSize fastq fasta mapq threads (sample_cap limit)]
   \<and> sample_cap limit = (if limit < 1000000 then 10000 else real_of_int (limit div 100))
   \<and> 10000 \<le> sample_cap limit
   \<and> (get_read_limit env fastq fasta mapq threads readLimit verbose w = (Inr (limit', libs), w')
        \<longrightarrow> (if readLimit = 0 then limit' = 0
             else \<exists>stats size. fasta_stats env fasta (files w) = Inr stats
                    \<and> int_of_str (split_on (CHR 0x09) stats ! 2) = Inr size
                    \<and> limit' = py_int (readLimit * real_of_int size))
          \<and> calls w' = calls w @ (if readLimit = 0 then [] else [FastaStats fasta])
                        @ [Fastq2InsertSize fastq fasta mapq threads (sample_cap limit')])"
  using calls_get_libraries [of env fastq fasta mapq threads limit w]
    sample_cap_eq [of limit] sample_cap_floor [of limit]
    get_read_limit_Inr [of env fastq fasta mapq threads readLimit verbose w limit' libs w']
  by blast

theorem sample_cap_passed_witness:
  "fst (get_read_limit ex_env ex_fastq ''genome.fa'' 10 2 0.2 True ex_world)
     = Inr (4000000, [ex_set1, ex_set2])
   \<and> calls (snd (get_read_limit ex_env ex_fastq ''genome.fa'' 10 2 0.2 True ex_world))
     = [FastaStats ''genome.fa'', Fastq2InsertSize ex_fastq ''genome.fa'' 10 2 40000]"
proof -
  let ?r = "get_read_limit ex_env ex_fastq ''genome.fa'' 10 2 0.2 True ex_world"
  have f: "fst ?r = Inr (4000000, [ex_set1, ex_set2])" by code_simp
  then have eq: "?r = (Inr (4000000, [ex_set1, ex_set2]), snd ?r)" by (simp add: prod_eq_iff)
  have c: "sample_cap 4000000 = 40000" by (simp add: sample_cap_def)
  have e: "calls ex_world = []" by (simp add: ex_world_def)
  from sample_cap_passed [of ex_env ex_fastq "''genome.fa''" 10 2 0 ex_world "0.2" True 4000000
      "[ex_set1, ex_set2]" "snd ?r"] eq
  have "calls (snd ?r) = calls ex_world @ [FastaStats ''genome.fa'']
          @ [Fastq2InsertSize ex_fastq ''genome.fa'' 10 2 (sample_cap 4000000)]"
    by simp
  with f c e show ?thesis by simp
qed

text \<open>
  C4 as stated fails. With no read-fraction limit the cap handed over is 10,000, not
  \<open>10^6\<close> or more; and with a limit of 0.01 on an assembly of 20,000,000 bases the cap
  is again 10,000, not the 2,000 that the fraction of the assembly size would give.
\<close>

theorem sample_cap_counterexample:
  "calls (snd (get_read_limit ex_env ex_fastq ''genome.fa'' 10 2 0 False ex_world))
     = [Fastq2InsertSize ex_fastq ''genome.fa'' 10 2 10000]
   \<and> \<not> (1000000 \<le> (10000::real))
   \<and> calls (snd (get_read_limit ex_env ex_fastq ''genome.fa'' 10 2 0.01 False ex_world))
     = [FastaStats ''genome.fa'', Fastq2InsertSize ex_fastq ''genome.fa'' 10 2 10000]
   \<and> py_int (0.01 * real_of_int 20000000) div 100 = 2000"
proof -
  have a: "calls (snd (get_read_limit ex_env ex_fastq ''genome.fa'' 10 2 0 False ex_world))
     = [Fastq2InsertSize ex_fastq ''genome.fa'' 10 2 10000]" by code_simp
  have b: "calls (snd (get_read_limit ex_env ex_fastq ''genome.fa'' 10 2 0.01 False ex_world))
     = [FastaStats ''genome.fa'', Fastq2InsertSize ex_fastq ''genome.fa'' 10 2 10000]" by code_simp
  have c: "py_int (0.01 * real_of_int 20000000) div 100 = 2000" by (simp add: py_int_def)
  from a b c show ?thesis by simp
qed

subsection \<open>Orientation selection\<close>




subsection \<open>The capped variability\<close>

text \<open>
  C7. Whenever the classifier returns, the variabilities it stores are, in ascending order
  of mean insert, the ratios of standard deviation to mean insert capped at 1: each stored
  value is the smaller of the ratio and 1, so none exceeds 1, also when the ratio does.
  A standard deviation is never negative and the mean insert of a library is positive;
  for such datasets every stored value lies between 0 and 1.
\<close>

theorem stdfrac_capped:
  assumes "classify rd libdata = Inr (libs, ws)"
  shows "concat (map libISStDev libs)
           = map (\<lambda>d. min (isstd d / ismean d) 1) (sort_key ismean libdata)
       \<and> (\<forall>s\<in>set libs. \<forall>f\<in>set (libISStDev s). f \<le> 1)
       \<and> ((\<forall>d\<in>set libdata. 0 \<le> isstd d \<and> 0 < ismean d) \<longrightarrow>
            (\<forall>s\<in>set libs. \<forall>f\<in>set (libISStDev s). 0 \<le> f \<and> f \<le> 1))"
proof -
  let ?cap = "\<lambda>d. if 1 < isstd d / ismean d then 1 else isstd d / ismean d"
  have capmin: "?cap d = min (isstd d / ismean d) 1" for d :: dataset
    by (simp add: min_def)
  have c: "concat (map libISStDev libs) = map ?cap (sort_key ismean libdata)"
    by (rule classify_libISStDev [OF assms(1)])
  then have c': "concat (map libISStDev libs)
           = map (\<lambda>d. min (isstd d / ismean d) 1) (sort_key ismean libdata)"
    by (simp only: capmin)
  have mem: "\<exists>d\<in>set libdata. f = ?cap d" if "s \<in> set libs" "f \<in> set (libISStDev s)" for s f
  proof -
    from that have "f \<in> set (concat (map libISStDev libs))" by auto
    then have "f \<in> ?cap ` set libdata" unfolding c by simp
    then show ?thesis by (rule imageE) (rule bexI)
  qed
  have upper: "\<forall>s\<in>set libs. \<forall>f\<in>set (libISStDev s). f \<le> 1"
  proof (intro ballI)
    fix s f assume sf: "s \<in> set libs" "f \<in> set (libISStDev s)"
    from mem [OF this] obtain d :: dataset where d: "d \<in> set libdata" "f = ?cap d" by auto
    from d(2) show "f \<le> 1" by (simp split: if_splits)
  qed
  have rng: "\<forall>s\<in>set libs. \<forall>f\<in>set (libISStDev s). 0 \<le> f \<and> f \<le> 1"
    if dom: "\<forall>d\<in>set libdata. 0 \<le> isstd d \<and> 0 < ismean d"
  proof (intro ballI)
    fix s f assume sf: "s \<in> set libs" "f \<in> set (libISStDev s)"
    from mem [OF this] obtain d :: dataset where d: "d \<in> set libdata" "f = ?cap d" by auto
    with dom have "0 \<le> isstd d" "0 < ismean d" by auto
    then have "0 \<le> isstd d / ismean d" by simp
    with d(2) show "0 \<le> f \<and> f \<le> 1" by (simp split: if_splits)
  qed
  from c' upper rng show ?thesis by blast
qed

theorem stdfrac_capped_witness:
  "classify (\<lambda>_. True) [ex_d1200, ex_d300, ex_d305]
     = Inr ([ex_set1, ex_set2], [HighlyVariable 1200 1300 ''c_1.fq'' ''c_2.fq''])
   \<and> list_all (\<lambda>d. 0 \<le> isstd d \<and> 0 < ismean d) [ex_d1200, ex_d300, ex_d305]
   \<and> concat (map libISStDev [ex_set1, ex_set2]) = [1 / 10, 1 / 5, 1]
   \<and> list_all (\<lambda>s. list_all (\<lambda>f. 0 \<le> f \<and> f \<le> 1) (libISStDev s)) [ex_set1, ex_set2]
   \<and> isstd ex_d1200 / ismean ex_d1200 = 13 / 12"
proof -
  have h: "\<forall>d\<in>set [ex_d1200, ex_d300, ex_d305]. 0 \<le> isstd d \<and> 0 < ismean d"
    by (simp add: ex_defs)
  note t = stdfrac_capped [OF ex_classify]
  from t have "concat (map libISStDev [ex_set1, ex_set2])
      = map (\<lambda>d. min (isstd d / ismean d) 1) (sort_key ismean [ex_d1200, ex_d300, ex_d305])"
    by (rule conjunct1)
  then have a: "concat (map libISStDev [ex_set1, ex_set2]) = [1 / 10, 1 / 5, 1]"
    by (simp only: ex_sorted) (simp add: ex_defs)
  from t h have b: "\<forall>s\<in>set [ex_set1, ex_set2]. \<forall>f\<in>set (libISStDev s). 0 \<le> f \<and> f \<le> 1"
    by blast
  have r: "isstd ex_d1200 / ismean ex_d1200 = 13 / 12" by (simp add: ex_d1200_def)
  from h have h': "list_all (\<lambda>d. 0 \<le> isstd d \<and> 0 < ismean d) [ex_d1200, ex_d300, ex_d305]"
    by (simp only: list_all_iff)
  from b have b': "list_all (\<lambda>s. list_all (\<lambda>f. 0 \<le> f \<and> f \<le> 1) (libISStDev s)) [ex_set1, ex_set2]"
    by (simp only: list_all_iff)
  from ex_classify h' a b' r show ?thesis by (intro conjI)
qed

subsection \<open>The grouping rule\<close>

lemma add_library_shape:
  assumes step: "add_library rd (libs, i, ms) d = Inr (libs', i', ms')"
    and wf: "\<forall>s\<in>set libs. wf_libset s"
  shows "if libs = [] \<or> 1.5 * real_of_int (hd (libIS (last libs))) < ismedian d
         then length libs' = Suc (length libs) \<and> butlast libs' = libs
              \<and> members (last libs') = [entry d]
         else length libs' = length libs \<and> butlast libs' = butlast libs
              \<and> members (last libs') = members (last libs) @ [entry d]"
proof -
  let ?new = "libs = [] \<or> 1.5 * real_of_int (hd (libIS (last libs))) < ismedian d"
  from step obtain new ori w where n: "new_set_needed libs d = Inr new"
    and l: "libs' = butlast (if new then libs @ [empty_libset] else libs)
                 @ [append_library (last (if new then libs @ [empty_libset] else libs))
                      (''lib'' @ str_nat (if new then 1 else i)) (fq1 d) (fq2 d) ori
                      (py_int (ismean d)) (if 1 < isstd d / ismean d then 1 else isstd d / ismean d)]"
    by (rule add_library_Inr_form)
  from n new_set_needed_wf [OF wf, of d] have new: "new = ?new" by simp
  show ?thesis
  proof (cases ?new)
    case True
    with new have "new" by simp
    with l have "libs' = libs @ [append_library empty_libset (''lib'' @ str_nat 1) (fq1 d) (fq2 d) ori
                      (py_int (ismean d)) (if 1 < isstd d / ismean d then 1 else isstd d / ismean d)]"
      by simp
    then have "length libs' = Suc (length libs) \<and> butlast libs' = libs \<and> members (last libs') = [entry d]"
      by (simp add: members_def append_library_def empty_libset_def entry_def)
    with True show ?thesis by (simp only: if_True)
  next
    case False
    with new have nn: "\<not> new" by simp
    from False have nonempty: "libs \<noteq> []" by simp
    with wf have wl: "wf_libset (last libs)" by simp
    from nn l have l': "libs' = butlast libs @ [append_library (last libs) (''lib'' @ str_nat i) (fq1 d) (fq2 d) ori
                      (py_int (ismean d)) (if 1 < isstd d / ismean d then 1 else isstd d / ismean d)]"
      by simp
    have m: "members (append_library (last libs) (''lib'' @ str_nat i) (fq1 d) (fq2 d) ori
                      (py_int (ismean d)) (if 1 < isstd d / ismean d then 1 else isstd d / ismean d))
             = members (last libs) @ [entry d]"
      unfolding entry_def using wl by (intro members_append_library) (simp_all add: wf_libset_def)
    from l' m nonempty have "length libs' = length libs \<and> butlast libs' = butlast libs
                  \<and> members (last libs') = members (last libs) @ [entry d]"
      by simp
    with False show ?thesis by (simp only: if_False)
  qed
qed

lemma hd_libIS_group:
  assumes wf: "wf_libset s" and m: "members s = map entry g"
  shows "hd (libIS s) = py_int (ismean (hd g))"
proof -
  from wf have "libIS s \<noteq> []" by (rule wf_libIS)
  have "libIS s = map (\<lambda>e. fst (snd (snd e))) (members s)"
    using third_members [OF wf] by simp
  also have "\<dots> = map (\<lambda>d. py_int (ismean d)) g"
    unfolding m by (simp add: entry_def comp_def)
  finally have eq: "libIS s = map (\<lambda>d. py_int (ismean d)) g" .
  with \<open>libIS s \<noteq> []\<close> have "g \<noteq> []" by auto
  with eq show ?thesis by (simp add: hd_map)
qed

lemma add_library_groups:
  assumes step: "add_library rd (libs, i, ms) d = Inr (libs', i', ms')"
    and wf: "\<forall>s\<in>set libs. wf_libset s"
    and gs: "map members libs = map (map entry) gs"
  shows "map members libs' =
           map (map entry)
             (if gs = [] \<or> 1.5 * real_of_int (py_int (ismean (hd (last gs)))) < ismedian d
              then gs @ [[d]] else butlast gs @ [last gs @ [d]])"
proof -
  from gs have len: "length libs = length gs" by (rule map_eq_imp_length_eq)
  then have empty: "(gs = []) = (libs = [])" by auto
  have hd_eq: "hd (libIS (last libs)) = py_int (ismean (hd (last gs)))" if ne: "libs \<noteq> []"
  proof -
    from ne empty have gne: "gs \<noteq> []" by simp
    from ne wf have wl: "wf_libset (last libs)" by simp
    have "members (last libs) = last (map members libs)" using ne by (simp add: last_map)
    also have "\<dots> = map entry (last gs)" unfolding gs using gne by (simp add: last_map)
    finally show ?thesis by (rule hd_libIS_group [OF wl])
  qed
  have cond: "(gs = [] \<or> 1.5 * real_of_int (py_int (ismean (hd (last gs)))) < ismedian d)
            = (libs = [] \<or> 1.5 * real_of_int (hd (libIS (last libs))) < ismedian d)"
    using empty hd_eq by (cases "libs = []") simp_all
  note shape = add_library_shape [OF step wf]
  show ?thesis
  proof (cases "libs = [] \<or> 1.5 * real_of_int (hd (libIS (last libs))) < ismedian d")
    case True
    with shape have s: "length libs' = Suc (length libs)" "butlast libs' = libs"
      "members (last libs') = [entry d]" by simp_all
    from s(1) have "libs' \<noteq> []" by auto
    then have "libs' = butlast libs' @ [last libs']" by simp
    then have "map members libs' = map members (butlast libs') @ [members (last libs')]"
      by (metis list.simps(8) list.simps(9) map_append)
    with s gs have "map members libs' = map (map entry) (gs @ [[d]])" by simp
    with True cond show ?thesis by simp
  next
    case False
    with shape have s: "length libs' = length libs" "butlast libs' = butlast libs"
      "members (last libs') = members (last libs) @ [entry d]" by simp_all
    from False have ne: "libs \<noteq> []" by simp
    with empty have gne: "gs \<noteq> []" by simp
    from s(1) ne have "libs' \<noteq> []" by auto
    then have "libs' = butlast libs' @ [last libs']" by simp
    then have m: "map members libs' = map members (butlast libs') @ [members (last libs')]"
      by (metis list.simps(8) list.simps(9) map_append)
    have b: "map members (butlast libs) = map (map entry) (butlast gs)"
      using gs by (simp add: map_butlast)
    have "members (last libs) = last (map members libs)" using ne by (simp add: last_map)
    also have "\<dots> = map entry (last gs)" unfolding gs using gne by (simp add: last_map)
    finally have l: "members (last libs) = map entry (last gs)" .
    from m s b l have "map members libs' = map (map entry) (butlast gs @ [last gs @ [d]])" by simp
    with False cond show ?thesis by simp
  qed
qed

lemma loop_groups:
  assumes "get_libraries_loop rd (libs, i, ms) ds = Inr (libs', i', ms')"
    and "\<forall>s\<in>set libs. wf_libset s"
    and "map members libs = map (map entry) gs"
  shows "map members libs' = map (map entry) (spec_groups gs ds)"
  using assms
proof (induction ds arbitrary: libs i ms gs)
  case Nil
  then show ?case by simp
next
  case (Cons d ds)
  from Cons.prems(1) obtain st where st: "add_library rd (libs, i, ms) d = Inr st"
    and rest: "get_libraries_loop rd st ds = Inr (libs', i', ms')"
    by (cases "add_library rd (libs, i, ms) d") simp_all
  obtain l1 i1 m1 where st': "st = (l1, i1, m1)" by (cases st)
  note step = st [unfolded st']
  from add_library_step [OF step Cons.prems(2)] have w1: "\<forall>s\<in>set l1. wf_libset s" by blast
  note g1 = add_library_groups [OF step Cons.prems(2) Cons.prems(3)]
  from Cons.IH [OF rest [unfolded st'] w1 g1] show ?case by (simp split: if_splits)
qed

text \<open>
  C1. Whenever the classifier returns, its sets are the groups of the grouping rule applied
  to the datasets in ascending order of mean insert: a dataset opens a new set exactly when
  there is no set yet or its median insert exceeds 1.5 times the first mean insert
  recorded in the set opened last, and joins that set otherwise. The same is stated for
  each pass of the loop: at a dataset \<open>d\<close>, at its place \<open>pre @ d # post\<close> in the order,
  the loop holds some sets \<open>libs\<close>, it adds one set holding \<open>d\<close> alone exactly under that
  condition and otherwise extends the last set by \<open>d\<close>, and it goes on from there to the
  returned sets. Datasets with means 300 and 305 and one with mean and median 1200 give
  the two sets {300, 305} and {1200}.
\<close>

theorem new_set_rule:
  assumes "classify rd libdata = Inr (out, ws)"
  shows "map members out = map (map entry) (spec_groups [] (sort_key ismean libdata))
       \<and> (\<forall>pre d post. sort_key ismean libdata = pre @ d # post \<longrightarrow>
            (\<exists>libs i ms libs' i' ms' k.
                get_libraries_loop rd ([], 0, []) pre = Inr (libs, i, ms)
              \<and> add_library rd (libs, i, ms) d = Inr (libs', i', ms')
              \<and> get_libraries_loop rd (libs', i', ms') post = Inr (out, k, ws)
              \<and> (libs = [] \<or> libIS (last libs) \<noteq> [])
              \<and> (if libs = [] \<or> 1.5 * real_of_int (hd (libIS (last libs))) < ismedian d
                 then length libs' = Suc (length libs) \<and> butlast libs' = libs
                      \<and> members (last libs') = [entry d]
                 else length libs' = length libs \<and> butlast libs' = butlast libs
                      \<and> members (last libs') = members (last libs) @ [entry d])))
       \<and> classify (\<lambda>_. True) [ex_d300, ex_d305, ex_d1200]
           = Inr ([ex_set1, ex_set2], [HighlyVariable 1200 1300 ''c_1.fq'' ''c_2.fq''])
       \<and> spec_groups [] [ex_d300, ex_d305, ex_d1200] = [[ex_d300, ex_d305], [ex_d1200]]"
proof -
  from assms obtain k where run: "get_libraries_loop rd ([], 0, []) (sort_key ismean libdata) = Inr (out, k, ws)"
    by (auto simp: classify_def split: sum.splits)
  have groups: "map members out = map (map entry) (spec_groups [] (sort_key ismean libdata))"
    by (rule loop_groups [OF run]) simp_all
  have steps: "\<exists>libs i ms libs' i' ms' k.
                get_libraries_loop rd ([], 0, []) pre = Inr (libs, i, ms)
              \<and> add_library rd (libs, i, ms) d = Inr (libs', i', ms')
              \<and> get_libraries_loop rd (libs', i', ms') post = Inr (out, k, ws)
              \<and> (libs = [] \<or> libIS (last libs) \<noteq> [])
              \<and> (if libs = [] \<or> 1.5 * real_of_int (hd (libIS (last libs))) < ismedian d
                 then length libs' = Suc (length libs) \<and> butlast libs' = libs
                      \<and> members (last libs') = [entry d]
                 else length libs' = length libs \<and> butlast libs' = butlast libs
                      \<and> members (last libs') = members (last libs) @ [entry d])"
    if split: "sort_key ismean libdata = pre @ d # post" for pre d post
  proof -
    from run [unfolded split loop_append]
    obtain st where pre: "get_libraries_loop rd ([], 0, []) pre = Inr st"
      and rest: "get_libraries_loop rd st (d # post) = Inr (out, k, ws)"
      by (cases "get_libraries_loop rd ([], 0, []) pre") simp_all
    obtain libs i ms where st: "st = (libs, i, ms)" by (cases st)
    from rest obtain st' where step: "add_library rd st d = Inr st'"
      and post: "get_libraries_loop rd st' post = Inr (out, k, ws)"
      by (cases "add_library rd st d") simp_all
    obtain libs' i' ms' where st': "st' = (libs', i', ms')" by (cases st')
    note pre = pre [unfolded st] and step = step [unfolded st st'] and post = post [unfolded st']
    from loop_members [OF pre] have wf: "\<forall>s\<in>set libs. wf_libset s" by simp
    then have ne: "libs = [] \<or> libIS (last libs) \<noteq> []" by (cases "libs = []") (simp_all add: wf_libIS)
    note body = add_library_shape [OF step wf]
    from pre step post ne body show ?thesis by blast
  qed
  have ex: "classify (\<lambda>_. True) [ex_d300, ex_d305, ex_d1200]
           = Inr ([ex_set1, ex_set2], [HighlyVariable 1200 1300 ''c_1.fq'' ''c_2.fq''])"
    by (simp add: ex_defs classify_eval)
  have exg: "spec_groups [] [ex_d300, ex_d305, ex_d1200] = [[ex_d300, ex_d305], [ex_d1200]]"
    by (simp add: ex_defs py_int_def)
  from groups steps ex exg show ?thesis by blast
qed

theorem new_set_rule_witness:
  "classify (\<lambda>_. True) [ex_d1200, ex_d300, ex_d305]
     = Inr ([ex_set1, ex_set2], [HighlyVariable 1200 1300 ''c_1.fq'' ''c_2.fq''])
   \<and> sort_key ismean [ex_d1200, ex_d300, ex_d305] = [ex_d300, ex_d305] @ ex_d1200 # []
   \<and> map members [ex_set1, ex_set2] = map (map entry) [[ex_d300, ex_d305], [ex_d1200]]
   \<and> (\<exists>libs i ms libs' i' ms'.
         get_libraries_loop (\<lambda>_. True) ([], 0, []) [ex_d300, ex_d305] = Inr (libs, i, ms)
       \<and> add_library (\<lambda>_. True) (libs, i, ms) ex_d1200 = Inr (libs', i', ms')
       \<and> libs = [ex_set1] \<and> libs' = [ex_set1, ex_set2]
       \<and> 1.5 * real_of_int (hd (libIS (last libs))) < ismedian ex_d1200
       \<and> length libs' = Suc (length libs))"
proof -
  have s: "sort_key ismean [ex_d1200, ex_d300, ex_d305] = [ex_d300, ex_d305] @ ex_d1200 # []"
    by (simp add: ex_defs)
  have l: "get_libraries_loop (\<lambda>_. True) ([], 0, []) [ex_d300, ex_d305] = Inr ([ex_set1], 3, [])"
    by (simp add: ex_defs classify_eval)
  have a: "add_library (\<lambda>_. True) ([ex_set1], 3, []) ex_d1200
             = Inr ([ex_set1, ex_set2], 2, [HighlyVariable 1200 1300 ''c_1.fq'' ''c_2.fq''])"
    by (simp add: ex_defs classify_eval)
  have c: "1.5 * real_of_int (hd (libIS (last [ex_set1]))) < ismedian ex_d1200"
    by (simp add: ex_defs)
  note t = new_set_rule [OF ex_classify]
  from t have g: "map members [ex_set1, ex_set2]
      = map (map entry) (spec_groups [] (sort_key ismean [ex_d1200, ex_d300, ex_d305]))"
    and g2: "spec_groups [] [ex_d300, ex_d305, ex_d1200] = [[ex_d300, ex_d305], [ex_d1200]]"
    by blast+
  from g g2 have m: "map members [ex_set1, ex_set2] = map (map entry) [[ex_d300, ex_d305], [ex_d1200]]"
    by (simp only: ex_sorted)
  from t [THEN conjunct2, THEN conjunct1, rule_format, OF s]
  obtain libs i ms libs' i' ms' where
      p: "get_libraries_loop (\<lambda>_. True) ([], 0, []) [ex_d300, ex_d305] = Inr (libs, i, ms)"
    and q: "add_library (\<lambda>_. True) (libs, i, ms) ex_d1200 = Inr (libs', i', ms')"
    and b: "if libs = [] \<or> 1.5 * real_of_int (hd (libIS (last libs))) < ismedian ex_d1200
            then length libs' = Suc (length libs) \<and> butlast libs' = libs
                 \<and> members (last libs') = [entry ex_d1200]
            else length libs' = length libs \<and> butlast libs' = butlast libs
                 \<and> members (last libs') = members (last libs) @ [entry ex_d1200]"
    by blast
  from p l have e: "libs = [ex_set1]" "i = 3" "ms = []" by simp_all
  from q a e have e': "libs' = [ex_set1, ex_set2]" by simp
  from b c e have n: "length libs' = Suc (length libs)" by simp
  from ex_classify s m p q e(1) e' c [folded e(1)] n show ?thesis by blast
qed

subsection \<open>The gap-closing configuration\<close>

lemma stderr_run_collaborator: "stderr (snd (run_collaborator f w)) = stderr w"
  by (simp add: run_collaborator_def split: prod.splits)

lemma write_file_frame:
  "write_file p c w = (r, w') \<Longrightarrow> stderr w' = stderr w \<and> calls w' = calls w \<and> cwd w' = cwd w"
  by (auto simp: write_file_def split: option.splits)

lemma write_file_Inr:
  assumes "write_file p c w = (Inr u, w')"
  shows "\<exists>q. write_target (Suc max_links) w p = Some q
             \<and> w' = w\<lparr>files := (files w)(q \<mapsto> Regular c)\<rparr>"
proof (cases "write_target (Suc max_links) w p")
  case None
  with assms show ?thesis by (simp add: write_file_def del: write_target.simps)
next
  case (Some q)
  with assms show ?thesis by (simp add: write_file_def del: write_target.simps)
qed

text \<open>filter_reads never returns: it stops at the unbound name, or earlier at a file.\<close>

lemma filter_reads_raises: "\<exists>e. fst (filter_reads i outdir f r w) = Inl e"
  by (auto simp: filter_reads_def Let_def split: prod.splits sum.splits)

lemma prepare_loop_skip:
  "\<forall>row\<in>set pre. \<not> eligible row
     \<Longrightarrow> prepare_loop outdir verbose i (pre @ rest) config w
           = prepare_loop outdir verbose (i + length pre) rest config
               (w\<lparr>stderr := stderr w @ (if verbose then skipped pre else [])\<rparr>)"
proof (induction pre arbitrary: i w)
  case Nil
  then show ?case by simp
next
  case (Cons row pre)
  obtain f r orient iSize iFrac where row: "row = (f, r, orient, iSize, iFrac)" by (cases row)
  with Cons.prems have no: "\<not> (orient = ''FR'' \<or> orient = ''RF'')" by (simp add: eligible_def)
  then have n: "reverse_seq_of orient = None" by (simp add: reverse_seq_of_def)
  from Cons.prems have "\<forall>row\<in>set pre. \<not> eligible row" by simp
  from Cons.IH [OF this] n no row show ?case by (simp add: write_stderr_def)
qed

lemma prepare_loop_none_eligible:
  assumes "\<forall>row\<in>set rows. \<not> eligible row"
  shows "prepare_loop outdir verbose i rows config w
           = (Inr config, w\<lparr>stderr := stderr w @ (if verbose then skipped rows else [])\<rparr>)"
  using prepare_loop_skip [OF assms, of outdir verbose i "[]" config w] by simp

lemma prepare_loop_eligible_raises:
  "\<exists>row\<in>set rows. eligible row \<Longrightarrow> \<exists>e. fst (prepare_loop outdir verbose i rows config w) = Inl e"
proof (induction rows arbitrary: i w)
  case Nil
  then show ?case by simp
next
  case (Cons row rows)
  obtain f r orient iSize iFrac where row: "row = (f, r, orient, iSize, iFrac)" by (cases row)
  show ?case
  proof (cases "reverse_seq_of orient")
    case None
    then have "\<not> eligible row" using row by (auto simp: eligible_def reverse_seq_of_def split: if_splits)
    with Cons.prems have "\<exists>row\<in>set rows. eligible row" by simp
    from Cons.IH [OF this] None row show ?thesis by simp
  next
    case (Some rs)
    from filter_reads_raises [of i outdir f r w] obtain e w1 where "filter_reads i outdir f r w = (Inl e, w1)"
      by (cases "filter_reads i outdir f r w") auto
    with Some row show ?thesis by simp
  qed
qed

text \<open>With a library that is FR, the builder stops at the unbound name.\<close>

lemma prepare_gapcloser_frrr:
  "fst (prepare_gapcloser ''/w/out'' ''/w/out/_gapcloser.1.conf'' ex_frrr 150 True ex_world_out)
     = Inl NameError"
  by code_simp

text \<open>
  C5, as the code has it. FR is mapped to \<open>reverse_seq\<close> 0 and RF to 1. A library of any
  other orientation is passed over without an error, and with a message only when
  \<open>verbose\<close> is set: the libraries before the first FR or RF one leave the loop where it
  was, but for their messages. When no library of the set is FR or RF, the builder returns
  \<^verbatim>\<open>None\<close> with no error, no file written and nothing else changed; it returns
  \<^verbatim>\<open>None\<close> only then, and it raises only when some library is FR or RF.
\<close>

theorem prepare_gapcloser_outcome:
  assumes "prepare_gapcloser outdir configFn lib maxlen verbose w = (res, w')"
  shows "reverse_seq_of ''FR'' = Some 0 \<and> reverse_seq_of ''RF'' = Some 1
       \<and> (\<forall>orient. orient \<noteq> ''FR'' \<and> orient \<noteq> ''RF'' \<longrightarrow> reverse_seq_of orient = None)
       \<and> ((\<forall>row\<in>set (lib_rows lib). \<not> eligible row) \<longrightarrow>
             res = Inr None
             \<and> w' = w\<lparr>stderr := stderr w @ (if verbose then skipped (lib_rows lib) else [])\<rparr>)
       \<and> (res = Inr None \<longrightarrow> (\<forall>row\<in>set (lib_rows lib). \<not> eligible row))
       \<and> (\<forall>e. res = Inl e \<longrightarrow> (\<exists>row\<in>set (lib_rows lib). eligible row))
       \<and> (\<forall>pre rest config i v. (\<forall>row\<in>set pre. \<not> eligible row) \<longrightarrow>
             prepare_loop outdir verbose i (pre @ rest) config v
               = prepare_loop outdir verbose (i + length pre) rest config
                   (v\<lparr>stderr := stderr v @ (if verbose then skipped pre else [])\<rparr>))"
proof -
  let ?rows = "lib_rows lib"
  let ?hd = "''max_rd_len='' @ str_int maxlen"
  have maps: "reverse_seq_of ''FR'' = Some 0 \<and> reverse_seq_of ''RF'' = Some 1
       \<and> (\<forall>orient. orient \<noteq> ''FR'' \<and> orient \<noteq> ''RF'' \<longrightarrow> reverse_seq_of orient = None)"
    by (simp add: reverse_seq_of_def)
  have none: "res = Inr None \<and> w' = w\<lparr>stderr := stderr w @ (if verbose then skipped ?rows else [])\<rparr>"
    if ne: "\<forall>row\<in>set ?rows. \<not> eligible row"
  proof -
    from prepare_loop_none_eligible [OF ne, of outdir verbose 1 "[?hd]" w] assms
    show ?thesis by (simp add: prepare_gapcloser_def)
  qed
  have only: "\<forall>row\<in>set ?rows. \<not> eligible row" if r: "res = Inr None"
  proof (rule ccontr)
    assume "\<not> (\<forall>row\<in>set ?rows. \<not> eligible row)"
    then have "\<exists>row\<in>set ?rows. eligible row" by simp
    from prepare_loop_eligible_raises [OF this, of outdir verbose 1 "[?hd]" w]
    obtain e w1 where "prepare_loop outdir verbose 1 ?rows [?hd] w = (Inl e, w1)"
      by (cases "prepare_loop outdir verbose 1 ?rows [?hd] w") auto
    with assms have "res = Inl e" by (simp add: prepare_gapcloser_def)
    with r show False by simp
  qed
  have raises: "\<exists>row\<in>set ?rows. eligible row" if r: "res = Inl e" for e
  proof (rule ccontr)
    assume "\<not> (\<exists>row\<in>set ?rows. eligible row)"
    then have "\<forall>row\<in>set ?rows. \<not> eligible row" by simp
    from none [OF this] r show False by simp
  qed
  have skip: "\<forall>pre rest config i v. (\<forall>row\<in>set pre. \<not> eligible row) \<longrightarrow>
             prepare_loop outdir verbose i (pre @ rest) config v
               = prepare_loop outdir verbose (i + length pre) rest config
                   (v\<lparr>stderr := stderr v @ (if verbose then skipped pre else [])\<rparr>)"
    by (intro allI impI) (rule prepare_loop_skip)
  from maps none only raises skip show ?thesis by blast
qed

theorem prepare_gapcloser_outcome_witness:
  "list_all (\<lambda>row. \<not> eligible row) (lib_rows ex_rr)
   \<and> fst (prepare_gapcloser ''/w/out'' ''/w/out/_gapcloser.1.conf'' ex_rr 150 True ex_world_out)
     = Inr None
   \<and> stderr (snd (prepare_gapcloser ''/w/out'' ''/w/out/_gapcloser.1.conf'' ex_rr 150 True ex_world_out))
     = [SkippingUnsupported ''RR'' ''c_1.fq'' ''c_2.fq'']
   \<and> files (snd (prepare_gapcloser ''/w/out'' ''/w/out/_gapcloser.1.conf'' ex_rr 150 True ex_world_out))
     = files ex_world_out"
proof -
  let ?N = "prepare_gapcloser ''/w/out'' ''/w/out/_gapcloser.1.conf'' ex_rr 150 True ex_world_out"
  have ne: "\<forall>row\<in>set (lib_rows ex_rr). \<not> eligible row"
    by (simp add: lib_rows_def ex_rr_def eligible_def)
  have sk: "skipped (lib_rows ex_rr) = [SkippingUnsupported ''RR'' ''c_1.fq'' ''c_2.fq'']"
    by (simp add: lib_rows_def ex_rr_def)
  have e: "stderr ex_world_out = []" by (simp add: ex_world_out_def ex_world_def)
  have eq: "?N = (fst ?N, snd ?N)" by simp
  from prepare_gapcloser_outcome [OF eq] ne
  have r: "fst ?N = Inr None"
    and w: "snd ?N = ex_world_out\<lparr>stderr := stderr ex_world_out @ (if True then skipped (lib_rows ex_rr) else [])\<rparr>"
    by blast+
  from w sk e have s: "stderr (snd ?N) = [SkippingUnsupported ''RR'' ''c_1.fq'' ''c_2.fq'']" by simp
  from w have f: "files (snd ?N) = files ex_world_out" by simp
  from ne have "list_all (\<lambda>row. \<not> eligible row) (lib_rows ex_rr)" by (simp add: list_all_iff)
  with r s f show ?thesis by (intro conjI)
qed

text \<open>
  With \<open>verbose\<close> off, the set holding one RR library is passed over and nothing is
  written to the diagnostic stream.
\<close>

theorem prepare_gapcloser_silent_counterexample:
  "orients ex_rr = [''RR'']
   \<and> fst (prepare_gapcloser ''/w/out'' ''/w/out/_gapcloser.1.conf'' ex_rr 150 False ex_world_out)
       = Inr None
   \<and> stderr (snd (prepare_gapcloser ''/w/out'' ''/w/out/_gapcloser.1.conf'' ex_rr 150 False ex_world_out))
       = []"
proof -
  have ne: "\<forall>row\<in>set (lib_rows ex_rr). \<not> eligible row"
    by (simp add: lib_rows_def ex_rr_def eligible_def)
  have e: "stderr ex_world_out = []" by (simp add: ex_world_out_def ex_world_def)
  have "prepare_gapcloser ''/w/out'' ''/w/out/_gapcloser.1.conf'' ex_rr 150 False ex_world_out
          = (Inr None, ex_world_out\<lparr>stderr := stderr ex_world_out @ []\<rparr>)"
    using prepare_loop_none_eligible [OF ne, of "''/w/out''" False 1 "[''max_rd_len='' @ str_int 150]" ex_world_out]
    by (simp add: prepare_gapcloser_def)
  with e show ?thesis by (simp add: ex_rr_def)
qed

subsection \<open>The scaffolding loop\<close>

lemma os_symlink_frame:
  "os_symlink a b w = (r, w') \<Longrightarrow> calls w' = calls w \<and> stderr w' = stderr w \<and> cwd w' = cwd w"
  by (auto simp: os_symlink_def split: if_splits)

lemma symlink_frame:
  "symlink a b w = (r, w') \<Longrightarrow> calls w' = calls w \<and> stderr w' = stderr w \<and> cwd w' = cwd w"
  by (auto simp: symlink_def Let_def split: if_splits dest: os_symlink_frame)

lemma chained_append:
  "chained p cs1 \<Longrightarrow> chained p (cs1 @ cs2) = chained (chain_end p cs1) cs2"
  by (induction p cs1 rule: chained.induct) simp_all

lemma chain_end_append:
  "chained p cs1 \<Longrightarrow> chain_end p (cs1 @ cs2) = chain_end (chain_end p cs1) cs2"
  by (induction p cs1 rule: chained.induct) simp_all

lemma round_calls_chain:
  "filter is_sspace (round_calls outdir lib i js pout) = round_calls outdir lib i js pout
   \<and> length (round_calls outdir lib i js pout) = length js
   \<and> chained pout (round_calls outdir lib i js pout)
   \<and> chain_end pout (round_calls outdir lib i js pout) = round_end outdir i js pout"
  by (induction js arbitrary: pout) simp_all

lemma pass_calls_chain:
  "length (filter is_sspace (pass_calls opts limit i libs rs pout)) = length rs * nat (opt_iters opts)
   \<and> chained pout (filter is_sspace (pass_calls opts limit i libs rs pout))"
proof (induction rs arbitrary: i libs pout)
  case Nil
  then show ?case by simp
next
  case (Cons r rs)
  let ?rc = "round_calls (opt_outdir opts) (libs ! i) (i + 1) [1..opt_iters opts] pout"
  let ?p = "round_end (opt_outdir opts) (i + 1) [1..opt_iters opts] pout"
  note rc = round_calls_chain [of "opt_outdir opts" "libs ! i" "i + 1" "[1..opt_iters opts]" pout]
  have f: "filter is_sspace (pass_calls opts limit i libs (r # rs) pout)
             = ?rc @ filter is_sspace (pass_calls opts limit (i + 1) r rs ?p)"
    using rc by simp
  from rc have l: "length ?rc = nat (opt_iters opts)" by simp
  from rc have c: "chained pout ?rc" and e: "chain_end pout ?rc = ?p" by simp_all
  from Cons.IH [of "i + 1" r ?p] l have len: "length (?rc @ filter is_sspace (pass_calls opts limit (i + 1) r rs ?p))
      = length (r # rs) * nat (opt_iters opts)" by simp
  from Cons.IH [of "i + 1" r ?p] chained_append [OF c] e
  have ch: "chained pout (?rc @ filter is_sspace (pass_calls opts limit (i + 1) r rs ?p))" by simp
  from len ch show ?case unfolding f by simp
qed

lemma passes_length:
  "passes i libs rs \<Longrightarrow> length libs = n \<Longrightarrow> \<forall>r\<in>set rs. length r = n \<Longrightarrow> i \<le> n
     \<Longrightarrow> length rs = n - i"
  by (induction rs arbitrary: i libs) auto

lemma scaffold_rounds_calls:
  assumes "scaffold_rounds env outdir verbose lib i js pout w = (Inr pout', w')"
  shows "calls w' = calls w @ round_calls outdir lib i js pout \<and> pout' = round_end outdir i js pout"
  using assms
proof (induction js arbitrary: pout w)
  case Nil
  then show ?case by simp
next
  case (Cons j js)
  let ?w1 = "if verbose then write_stderr (Iteration i j) w else w"
  let ?out = "path_join outdir (''_sspace.'' @ str_nat i @ ''.'' @ str_int j)"
  let ?tgt = "path_join (basename ?out) (basename (?out @ ''.final.scaffolds.fasta''))"
  let ?c = "Fastq2Sspace ?out pout lib"
  from Cons.prems have f: "isfile ?w1 pout"
    by (auto simp: Let_def split: if_splits)
  obtain r2 w2 where rc: "run_collaborator (fastq2sspace env ?out pout lib) (record_call ?c ?w1) = (r2, w2)"
    by (cases "run_collaborator (fastq2sspace env ?out pout lib) (record_call ?c ?w1)")
  from Cons.prems f rc obtain u where r2: "r2 = Inr u"
    by (cases r2) (auto simp: Let_def)
  obtain r3 w3 where sl: "symlink ?tgt (?out @ ''.fa'') w2 = (r3, w3)"
    by (cases "symlink ?tgt (?out @ ''.fa'') w2")
  from Cons.prems f rc r2 sl obtain u' where r3: "r3 = Inr u'"
    by (cases r3) (auto simp: Let_def)
  from Cons.prems f rc r2 sl r3
  have rest: "scaffold_rounds env outdir verbose lib i js (?out @ ''.fa'') w3 = (Inr pout', w')"
    by (simp add: Let_def)
  have c1: "calls ?w1 = calls w" by (simp add: write_stderr_def)
  from calls_run_collaborator [of "fastq2sspace env ?out pout lib" "record_call ?c ?w1"] rc
  have "calls w2 = calls (record_call ?c ?w1)" by simp
  with c1 have c2: "calls w2 = calls w @ [?c]" by (simp add: record_call_def)
  from symlink_frame [OF sl] c2 have c3: "calls w3 = calls w @ [?c]" by simp
  from Cons.IH [OF rest] c3 show ?case by simp
qed

lemma get_libraries_Inr:
  assumes "get_libraries env fastq fasta mapq threads limit w = (Inr libs, w')"
  shows "\<exists>libdata fs' rd msgs.
           fastq2insert_size env fastq fasta mapq threads (sample_cap limit) (files w) = (Inr libdata, fs')
           \<and> classify rd libdata = Inr (libs, msgs)"
proof -
  let ?c = "Fastq2InsertSize fastq fasta mapq threads (sample_cap limit)"
  obtain r fs' where f: "fastq2insert_size env fastq fasta mapq threads (sample_cap limit) (files w) = (r, fs')"
    by (cases "fastq2insert_size env fastq fasta mapq threads (sample_cap limit) (files w)")
  then have rc: "run_collaborator (fastq2insert_size env fastq fasta mapq threads (sample_cap limit)) (record_call ?c w)
                  = (r, (record_call ?c w)\<lparr>files := fs'\<rparr>)"
    by (simp add: run_collaborator_def record_call_def)
  from assms rc obtain libdata where r: "r = Inr libdata"
    by (cases r) (auto simp: get_libraries_def Let_def)
  from assms rc r obtain msgs where "classify (isfile ((record_call ?c w)\<lparr>files := fs'\<rparr>)) libdata = Inr (libs, msgs)"
    by (auto simp: get_libraries_def Let_def split: sum.splits)
  with f r show ?thesis by blast
qed

lemma scaffold_sets_calls:
  assumes "scaffold_sets fuel env opts limit libraries i pout w = Some (Inr (pout', libs'), w')"
  shows "\<exists>rs. passes i libraries rs \<and> last (libraries # rs) = libs'
              \<and> (\<forall>r\<in>set rs. refreshed env opts limit r)
              \<and> calls w' = calls w @ pass_calls opts limit i libraries rs pout"
  using assms
proof (induction fuel arbitrary: libraries i pout w)
  case 0
  then show ?case by simp
next
  case (Suc fuel)
  show ?case
  proof (cases "i < length libraries")
    case False
    with Suc.prems have "pout' = pout" "libs' = libraries" "w' = w" by simp_all
    with False have "passes i libraries [] \<and> last (libraries # []) = libs'
              \<and> (\<forall>r\<in>set []. refreshed env opts limit r)
              \<and> calls w' = calls w @ pass_calls opts limit i libraries [] pout"
      by simp
    then show ?thesis by blast
  next
    case True
    obtain r1 w1 where rounds: "scaffold_rounds env (opt_outdir opts) (opt_verbose opts) (libraries ! i) (i + 1)
                [1..opt_iters opts] pout w = (r1, w1)"
      by (cases "scaffold_rounds env (opt_outdir opts) (opt_verbose opts) (libraries ! i) (i + 1)
                [1..opt_iters opts] pout w")
    from Suc.prems True rounds obtain p1 where r1: "r1 = Inr p1"
      by (cases r1) auto
    obtain r2 w2 where gl: "get_libraries env (opt_fastq opts) p1 (opt_mapq opts) (opt_threads opts) limit w1 = (r2, w2)"
      by (cases "get_libraries env (opt_fastq opts) p1 (opt_mapq opts) (opt_threads opts) limit w1")
    from Suc.prems True rounds r1 gl obtain libs1 where r2: "r2 = Inr libs1"
      by (cases r2) auto
    from Suc.prems True rounds r1 gl r2
    have rest: "scaffold_sets fuel env opts limit libs1 (i + 1) p1 w2 = Some (Inr (pout', libs'), w')"
      by simp
    from scaffold_rounds_calls [OF rounds [unfolded r1]]
    have c1: "calls w1 = calls w @ round_calls (opt_outdir opts) (libraries ! i) (i + 1) [1..opt_iters opts] pout"
      and p1: "p1 = round_end (opt_outdir opts) (i + 1) [1..opt_iters opts] pout" by simp_all
    from calls_get_libraries [of env "opt_fastq opts" p1 "opt_mapq opts" "opt_threads opts" limit w1] gl
    have c2: "calls w2 = calls w1 @ [Fastq2InsertSize (opt_fastq opts) p1 (opt_mapq opts) (opt_threads opts) (sample_cap limit)]"
      by simp
    from get_libraries_Inr [OF gl [unfolded r2]] have fresh: "refreshed env opts limit libs1"
      unfolding refreshed_def by blast
    from Suc.IH [OF rest] obtain rs where rs: "passes (i + 1) libs1 rs" "last (libs1 # rs) = libs'"
      "\<forall>r\<in>set rs. refreshed env opts limit r"
      "calls w' = calls w2 @ pass_calls opts limit (i + 1) libs1 rs p1"
      by blast
    from True rs(1) have a: "passes i libraries (libs1 # rs)" by simp
    from rs(2) have b: "last (libraries # libs1 # rs) = libs'" by simp
    from fresh rs(3) have c: "\<forall>r\<in>set (libs1 # rs). refreshed env opts limit r" by simp
    from c1 c2 rs(4) p1 have d: "calls w' = calls w @ pass_calls opts limit i libraries (libs1 # rs) pout"
      by simp
    from a b c d show ?thesis by blast
  qed
qed

lemma scaffold_sets_terminates:
  assumes "stable_sets env opts n" and "length libraries = n" and "i \<le> n" and "n - i < fuel"
  shows "\<exists>r. scaffold_sets fuel env opts limit libraries i pout w = Some r"
  using assms(2-)
proof (induction fuel arbitrary: libraries i pout w)
  case 0
  then show ?case by simp
next
  case (Suc fuel)
  show ?case
  proof (cases "i < length libraries")
    case False
    then show ?thesis by simp
  next
    case True
    obtain r1 w1 where rounds: "scaffold_rounds env (opt_outdir opts) (opt_verbose opts) (libraries ! i) (i + 1)
                [1..opt_iters opts] pout w = (r1, w1)"
      by (cases "scaffold_rounds env (opt_outdir opts) (opt_verbose opts) (libraries ! i) (i + 1)
                [1..opt_iters opts] pout w")
    show ?thesis
    proof (cases r1)
      case (Inl e)
      with True rounds show ?thesis by simp
    next
      case (Inr p1)
      obtain r2 w2 where gl: "get_libraries env (opt_fastq opts) p1 (opt_mapq opts) (opt_threads opts) limit w1 = (r2, w2)"
        by (cases "get_libraries env (opt_fastq opts) p1 (opt_mapq opts) (opt_threads opts) limit w1")
      show ?thesis
      proof (cases r2)
        case (Inl e)
        with True rounds Inr gl show ?thesis by simp
      next
        case libs: (Inr libs1)
        from get_libraries_Inr [OF gl [unfolded libs]] obtain libdata fs' rd msgs where
          "fastq2insert_size env (opt_fastq opts) p1 (opt_mapq opts) (opt_threads opts) (sample_cap limit) (files w1)
             = (Inr libdata, fs')" "classify rd libdata = Inr (libs1, msgs)" by blast
        with assms(1) have l1: "length libs1 = n" unfolding stable_sets_def by blast
        from True Suc.prems have "i + 1 \<le> n" "n - (i + 1) < fuel" by simp_all
        from Suc.IH [OF l1 this] obtain r where "scaffold_sets fuel env opts limit libs1 (i + 1) p1 w2 = Some r"
          by blast
        with True rounds Inr gl libs show ?thesis by simp
      qed
    qed
  qed
qed

lemma refreshed_stable:
  "stable_sets env opts n \<Longrightarrow> refreshed env opts limit r \<Longrightarrow> length r = n"
  unfolding stable_sets_def refreshed_def by blast

text \<open>
  C2, as the code has it. Take a run of the scaffolding loop that returns. The library
  sets are classified afresh after every pass of the \<^verbatim>\<open>while\<close> loop, and pass number
  \<open>i\<close> runs exactly when the classification then in force has a set at index \<open>i\<close>. With
  \<open>rs\<close> the classifications obtained, one per pass, the calls the run adds are exactly
  these: for each pass the scaffolder once per iteration, on the set at the pass's index
  in the classification in force, then the request for fresh statistics. So the
  scaffolder is invoked the number of passes times the iterations per set, the first
  invocation reads the stage input and each later one the output of the one before.
  When every refreshed classification has as many sets \<open>n\<close> as the run started with,
  there are \<open>n\<close> passes, and the loop returns within \<open>n + 1\<close> tests of its condition.
\<close>

theorem run_scaffolding_invocations:
  "(run_scaffolding fuel env opts scaffoldsFname libraries reducedFname limit w = Some (Inr libs', w')
      \<longrightarrow> (\<exists>rs. passes 0 libraries rs \<and> last (libraries # rs) = libs'
                 \<and> (\<forall>r\<in>set rs. refreshed env opts limit r)
                 \<and> calls w' = calls w @ pass_calls opts limit 0 libraries rs reducedFname
                 \<and> sspace_calls w' = sspace_calls w
                      @ filter is_sspace (pass_calls opts limit 0 libraries rs reducedFname)
                 \<and> length (filter is_sspace (pass_calls opts limit 0 libraries rs reducedFname))
                      = length rs * nat (opt_iters opts)
                 \<and> chained reducedFname
                      (filter is_sspace (pass_calls opts limit 0 libraries rs reducedFname))
                 \<and> (stable_sets env opts n \<and> length libraries = n
                      \<longrightarrow> length rs = n \<and> length libs' = n)))
   \<and> (stable_sets env opts n \<and> length libraries = n \<and> n < fuel
      \<longrightarrow> (\<exists>r. run_scaffolding fuel env opts scaffoldsFname libraries reducedFname limit w = Some r))"
proof (intro conjI impI)
  assume run: "run_scaffolding fuel env opts scaffoldsFname libraries reducedFname limit w = Some (Inr libs', w')"
  then obtain pout w1 where sets: "scaffold_sets fuel env opts limit libraries 0 reducedFname w
                                     = Some (Inr (pout, libs'), w1)"
    and sl: "symlink pout scaffoldsFname w1 = (Inr (), w')"
    by (auto simp: run_scaffolding_def split: option.splits sum.splits prod.splits)
  from scaffold_sets_calls [OF sets] obtain rs where
    rs: "passes 0 libraries rs" "last (libraries # rs) = libs'"
        "\<forall>r\<in>set rs. refreshed env opts limit r"
        "calls w1 = calls w @ pass_calls opts limit 0 libraries rs reducedFname"
    by blast
  from symlink_frame [OF sl] rs(4)
  have c: "calls w' = calls w @ pass_calls opts limit 0 libraries rs reducedFname" by simp
  then have s: "sspace_calls w' = sspace_calls w
                  @ filter is_sspace (pass_calls opts limit 0 libraries rs reducedFname)"
    by (simp add: sspace_calls_def)
  note ch = pass_calls_chain [of opts limit 0 libraries rs reducedFname]
  have st: "length rs = n \<and> length libs' = n"
    if a: "stable_sets env opts n \<and> length libraries = n"
  proof -
    from a rs(3) have all: "\<forall>r\<in>set rs. length r = n" by (auto dest: refreshed_stable)
    from passes_length [OF rs(1) _ all] a have l: "length rs = n" by simp
    from rs(2) all a have "length libs' = n" by (cases "rs = []") auto
    with l show ?thesis by simp
  qed
  from rs(1,2,3) c s ch st
  have "passes 0 libraries rs \<and> last (libraries # rs) = libs'
                 \<and> (\<forall>r\<in>set rs. refreshed env opts limit r)
                 \<and> calls w' = calls w @ pass_calls opts limit 0 libraries rs reducedFname
                 \<and> sspace_calls w' = sspace_calls w
                      @ filter is_sspace (pass_calls opts limit 0 libraries rs reducedFname)
                 \<and> length (filter is_sspace (pass_calls opts limit 0 libraries rs reducedFname))
                      = length rs * nat (opt_iters opts)
                 \<and> chained reducedFname
                      (filter is_sspace (pass_calls opts limit 0 libraries rs reducedFname))
                 \<and> (stable_sets env opts n \<and> length libraries = n
                      \<longrightarrow> length rs = n \<and> length libs' = n)"
    by (intro conjI impI) simp_all
  then show "\<exists>rs. passes 0 libraries rs \<and> last (libraries # rs) = libs'
                 \<and> (\<forall>r\<in>set rs. refreshed env opts limit r)
                 \<and> calls w' = calls w @ pass_calls opts limit 0 libraries rs reducedFname
                 \<and> sspace_calls w' = sspace_calls w
                      @ filter is_sspace (pass_calls opts limit 0 libraries rs reducedFname)
                 \<and> length (filter is_sspace (pass_calls opts limit 0 libraries rs reducedFname))
                      = length rs * nat (opt_iters opts)
                 \<and> chained reducedFname
                      (filter is_sspace (pass_calls opts limit 0 libraries rs reducedFname))
                 \<and> (stable_sets env opts n \<and> length libraries = n
                      \<longrightarrow> length rs = n \<and> length libs' = n)"
    by (rule exI)
next
  assume a: "stable_sets env opts n \<and> length libraries = n \<and> n < fuel"
  then have "\<exists>r. scaffold_sets fuel env opts limit libraries 0 reducedFname w = Some r"
    by (intro scaffold_sets_terminates [of env opts n]) simp_all
  then obtain r where "scaffold_sets fuel env opts limit libraries 0 reducedFname w = Some r" by blast
  then show "\<exists>r. run_scaffolding fuel env opts scaffoldsFname libraries reducedFname limit w = Some r"
    by (simp add: run_scaffolding_def split: option.splits sum.splits prod.splits)
qed

lemma add_library_readable:
  assumes "rd (fq1 d)" and "rd (fq2 d)"
  shows "add_library rd st d = add_library (\<lambda>_. True) st d"
  unfolding add_library_def using assms by (simp only: simp_thms if_False)

lemma add_library_Inr_any:
  assumes "add_library rd st d = Inr st'"
  shows "add_library (\<lambda>_. True) st d = Inr st'"
proof -
  obtain libs i ms where st: "st = (libs, i, ms)" by (cases st)
  obtain libs' i' ms' where st': "st' = (libs', i', ms')" by (cases st')
  from assms [unfolded st st'] have "rd (fq1 d)" "rd (fq2 d)"
    by (auto elim: add_library_Inr_form)
  from add_library_readable [OF this, of st] assms show ?thesis by simp
qed

lemma loop_Inr_any:
  "get_libraries_loop rd st ds = Inr st' \<Longrightarrow> get_libraries_loop (\<lambda>_. True) st ds = Inr st'"
proof (induction ds arbitrary: st)
  case Nil
  then show ?case by simp
next
  case (Cons d ds)
  from Cons.prems obtain s1 where 1: "add_library rd st d = Inr s1"
    and 2: "get_libraries_loop rd s1 ds = Inr st'"
    by (cases "add_library rd st d") simp_all
  from add_library_Inr_any [OF 1] Cons.IH [OF 2] show ?case by simp
qed

lemma classify_Inr_any:
  "classify rd libdata = Inr x \<Longrightarrow> classify (\<lambda>_. True) libdata = Inr x"
  by (auto simp: classify_def split: sum.splits dest: loop_Inr_any)

lemma ex_env_stable: "stable_sets ex_env ex_opts 2"
  unfolding stable_sets_def
proof (intro allI impI)
  fix fasta cap fs libdata fs' rd libs msgs
  assume "fastq2insert_size ex_env (opt_fastq ex_opts) fasta (opt_mapq ex_opts) (opt_threads ex_opts) cap fs
            = (Inr libdata, fs')"
  then have ld: "libdata = [ex_d1200, ex_d300, ex_d305]" by (simp add: ex_env_def)
  assume "classify rd libdata = Inr (libs, msgs)"
  from classify_Inr_any [OF this] ld ex_classify have "libs = [ex_set1, ex_set2]" by simp
  then show "length libs = 2" by simp
qed

lemma ex_scaffolding_result:
  "map_option fst (run_scaffolding 3 ex_env ex_opts ''/w/out/scaffolds.fa'' [ex_set1, ex_set2]
                     ''/w/out/contigs.reduced.fa'' 4000000 ex_world_red)
     = Some (Inr [ex_set1, ex_set2])"
  by code_simp

lemma ex_scaffolding_calls:
  "map_option (\<lambda>r. sspace_calls (snd r))
     (run_scaffolding 3 ex_env ex_opts ''/w/out/scaffolds.fa'' [ex_set1, ex_set2]
        ''/w/out/contigs.reduced.fa'' 4000000 ex_world_red)
     = Some [Fastq2Sspace ''/w/out/_sspace.1.1'' ''/w/out/contigs.reduced.fa'' ex_set1,
             Fastq2Sspace ''/w/out/_sspace.1.2'' ''/w/out/_sspace.1.1.fa'' ex_set1,
             Fastq2Sspace ''/w/out/_sspace.2.1'' ''/w/out/_sspace.1.2.fa'' ex_set2,
             Fastq2Sspace ''/w/out/_sspace.2.2'' ''/w/out/_sspace.2.1.fa'' ex_set2]"
  by code_simp

theorem run_scaffolding_invocations_witness:
  "stable_sets ex_env ex_opts 2 \<and> length [ex_set1, ex_set2] = 2 \<and> (2::nat) < 3
   \<and> map_option fst (run_scaffolding 3 ex_env ex_opts ''/w/out/scaffolds.fa'' [ex_set1, ex_set2]
                     ''/w/out/contigs.reduced.fa'' 4000000 ex_world_red)
     = Some (Inr [ex_set1, ex_set2])
   \<and> map_option (\<lambda>r. length (sspace_calls (snd r)))
        (run_scaffolding 3 ex_env ex_opts ''/w/out/scaffolds.fa'' [ex_set1, ex_set2]
           ''/w/out/contigs.reduced.fa'' 4000000 ex_world_red)
     = Some 4"
proof -
  let ?run = "run_scaffolding 3 ex_env ex_opts ''/w/out/scaffolds.fa'' [ex_set1, ex_set2]
                     ''/w/out/contigs.reduced.fa'' 4000000 ex_world_red"
  from ex_scaffolding_result obtain w' where run: "?run = Some (Inr [ex_set1, ex_set2], w')"
    by (cases ?run) auto
  have e: "sspace_calls ex_world_red = []" by (simp add: sspace_calls_def ex_world_red_def ex_world_def)
  have k: "nat (opt_iters ex_opts) = 2" by (simp add: ex_opts_def)
  from run_scaffolding_invocations [of 3 ex_env ex_opts "''/w/out/scaffolds.fa''" "[ex_set1, ex_set2]"
      "''/w/out/contigs.reduced.fa''" 4000000 ex_world_red "[ex_set1, ex_set2]" w' 2] run ex_env_stable
  obtain rs where "sspace_calls w' = sspace_calls ex_world_red
        @ filter is_sspace (pass_calls ex_opts 4000000 0 [ex_set1, ex_set2] rs ''/w/out/contigs.reduced.fa'')"
    "length (filter is_sspace (pass_calls ex_opts 4000000 0 [ex_set1, ex_set2] rs ''/w/out/contigs.reduced.fa''))
       = length rs * nat (opt_iters ex_opts)" "length rs = 2"
    by auto
  with e k have "length (sspace_calls w') = 4" by simp
  with run ex_env_stable show ?thesis by simp
qed

text \<open>
  C2 as stated fails. The run starts with two library sets and two iterations per set;
  the classification refreshed after the first set has one set, so the loop ends after
  two scaffolder invocations, not four.
\<close>

theorem run_scaffolding_refresh_counterexample:
  "length [ex_set1, ex_set2] = 2 \<and> opt_iters ex_opts = 2
   \<and> map_option fst (run_scaffolding 3 ex_env_one ex_opts ''/w/out/scaffolds.fa'' [ex_set1, ex_set2]
                     ''/w/out/contigs.reduced.fa'' 4000000 ex_world_red)
     = Some (Inr [ex_set1])
   \<and> map_option (\<lambda>r. sspace_calls (snd r))
        (run_scaffolding 3 ex_env_one ex_opts ''/w/out/scaffolds.fa'' [ex_set1, ex_set2]
           ''/w/out/contigs.reduced.fa'' 4000000 ex_world_red)
     = Some [Fastq2Sspace ''/w/out/_sspace.1.1'' ''/w/out/contigs.reduced.fa'' ex_set1,
             Fastq2Sspace ''/w/out/_sspace.1.2'' ''/w/out/_sspace.1.1.fa'' ex_set1]"
proof -
  have a: "map_option fst (run_scaffolding 3 ex_env_one ex_opts ''/w/out/scaffolds.fa'' [ex_set1, ex_set2]
                     ''/w/out/contigs.reduced.fa'' 4000000 ex_world_red)
     = Some (Inr [ex_set1])" by code_simp
  have b: "map_option (\<lambda>r. sspace_calls (snd r))
        (run_scaffolding 3 ex_env_one ex_opts ''/w/out/scaffolds.fa'' [ex_set1, ex_set2]
           ''/w/out/contigs.reduced.fa'' 4000000 ex_world_red)
     = Some [Fastq2Sspace ''/w/out/_sspace.1.1'' ''/w/out/contigs.reduced.fa'' ex_set1,
             Fastq2Sspace ''/w/out/_sspace.1.2'' ''/w/out/_sspace.1.1.fa'' ex_set1]" by code_simp
  from a b show ?thesis by (simp add: ex_opts_def)
qed

subsection \<open>Forwarding by symbolic link\<close>




lemma resolve_Suc_None:
  "files w (abspath w p) = None \<Longrightarrow> resolve (Suc n) w p = None"
  by simp

lemma resolve_Suc_Symlink:
  "files w (abspath w p) = Some (Symlink t)
     \<Longrightarrow> resolve (Suc n) w p = resolve n w (path_join (dirname (abspath w p)) t)"
  by simp

lemma resolve_Suc_Regular:
  "files w (abspath w p) = Some (Regular c) \<Longrightarrow> resolve (Suc n) w p = Some (abspath w p)"
  by simp

lemma resolve_Suc_Directory:
  "files w (abspath w p) = Some Directory \<Longrightarrow> resolve (Suc n) w p = Some (abspath w p)"
  by simp

lemmas resolve_Suc = resolve_Suc_None resolve_Suc_Symlink resolve_Suc_Regular resolve_Suc_Directory








lemma ex_all_off:
  "map_option fst (redundants 3 ex_env ex_opts_off ex_world) = Some (Inr ())
   \<and> map_option (\<lambda>r. map (read_file (snd r))
          [''/w/out/contigs.fa'', ''/w/out/contigs.reduced.fa'', ''/w/out/scaffolds.fa'',
           ''/w/out/scaffolds.filled.fa''])
        (redundants 3 ex_env ex_opts_off ex_world)
     = Some [Some ''>contig1'', Some ''>contig1'', Some ''>contig1'', Some ''>contig1'']
   \<and> map_option (\<lambda>r. map (files (snd r))
          [''/w/out/contigs.reduced.fa'', ''/w/out/scaffolds.fa'', ''/w/out/scaffolds.filled.fa''])
        (redundants 3 ex_env ex_opts_off ex_world)
     = Some [Some (Symlink ''/w/out/contigs.fa''), Some (Symlink ''/w/out/contigs.reduced.fa''),
             Some (Symlink ''/w/out/scaffolds.fa'')]"
  by code_simp


subsection \<open>The run directory\<close>

lemma has_dir_write_stderr: "has_dir c p (write_stderr m w) = has_dir c p w"
  by (simp add: has_dir_def write_stderr_def)

lemma has_dir_record_call: "has_dir c p (record_call k w) = has_dir c p w"
  by (simp add: has_dir_def record_call_def)

lemma has_dir_stderr_update: "has_dir c p (w\<lparr>stderr := s\<rparr>) = has_dir c p w"
  by (simp add: has_dir_def)

lemma has_dir_run_collaborator:
  assumes "run_collaborator f w = (r, w')" and "has_dir c p w"
    and "\<And>fs. fs p = Some Directory \<Longrightarrow> snd (f fs) p = Some Directory"
  shows "has_dir c p w'"
proof -
  obtain r1 fs1 where f: "f (files w) = (r1, fs1)" by (cases "f (files w)")
  with assms(1) have w': "w' = w\<lparr>files := fs1\<rparr>" by (simp add: run_collaborator_def)
  from assms(2) have "files w p = Some Directory" by (simp add: has_dir_def)
  then have "snd (f (files w)) p = Some Directory" by (rule assms(3))
  with f have "fs1 p = Some Directory" by simp
  with assms(2) w' show ?thesis by (simp add: has_dir_def)
qed

lemma has_dir_os_symlink:
  "os_symlink a b w = (r, w') \<Longrightarrow> has_dir c p w \<Longrightarrow> has_dir c p w'"
  by (auto simp: os_symlink_def has_dir_def split: if_splits)

lemma has_dir_symlink:
  "symlink a b w = (r, w') \<Longrightarrow> has_dir c p w \<Longrightarrow> has_dir c p w'"
  by (auto simp: symlink_def Let_def split: if_splits dest: has_dir_os_symlink)

lemma write_target_not_dir:
  "write_target n w x = Some q \<Longrightarrow> files w q \<noteq> Some Directory"
proof (induction n arbitrary: x)
  case 0
  then show ?case by simp
next
  case (Suc n)
  show ?case
  proof (cases "files w (abspath w x)")
    case None
    with Suc.prems show ?thesis by (auto split: if_splits)
  next
    case (Some nd)
    show ?thesis
    proof (cases nd)
      case (Regular cnt)
      with Some Suc.prems show ?thesis by auto
    next
      case (Symlink t)
      with Some Suc.prems have "write_target n w (path_join (dirname (abspath w x)) t) = Some q" by simp
      from Suc.IH [OF this] show ?thesis .
    next
      case Directory
      with Some Suc.prems show ?thesis by simp
    qed
  qed
qed

lemma has_dir_write_file:
  assumes "write_file x cnt w = (r, w')" and "has_dir c p w"
  shows "has_dir c p w'"
proof (cases "write_target (Suc max_links) w x")
  case None
  with assms show ?thesis by (simp add: write_file_def del: write_target.simps)
next
  case (Some q)
  from write_target_not_dir [OF Some] assms(2) have "q \<noteq> p" by (auto simp: has_dir_def)
  with Some assms show ?thesis by (auto simp: write_file_def has_dir_def simp del: write_target.simps)
qed

lemma has_dir_get_libraries:
  assumes "get_libraries env fastq fasta mapq threads limit w = (r, w')" and "has_dir c p w"
    and "keeps_directory env p"
  shows "has_dir c p w'"
proof -
  let ?k = "Fastq2InsertSize fastq fasta mapq threads (sample_cap limit)"
  let ?f = "fastq2insert_size env fastq fasta mapq threads (sample_cap limit)"
  obtain r2 w2 where rc: "run_collaborator ?f (record_call ?k w) = (r2, w2)"
    by (cases "run_collaborator ?f (record_call ?k w)")
  have "has_dir c p w2"
    by (rule has_dir_run_collaborator [OF rc]) (use assms in \<open>auto simp: has_dir_record_call keeps_directory_def\<close>)
  with assms(1) rc show ?thesis
    by (auto simp: get_libraries_def Let_def has_dir_stderr_update split: sum.splits prod.splits)
qed

lemma has_dir_get_read_limit:
  assumes "get_read_limit env fastq fasta mapq threads readLimit verbose w = (r, w')"
    and "has_dir c p w" and "keeps_directory env p"
  shows "has_dir c p w'"
proof -
  let ?first = "(if readLimit \<noteq> 0 then
              (if \<not> isfile w fasta then (Inl IOError, w)
               else
                 let w1 = record_call (FastaStats fasta) w in
                 case fasta_stats env fasta (files w1) of
                   Inl e \<Rightarrow> (Inl e, w1)
                 | Inr stats \<Rightarrow>
                     let fields = split_on (CHR 0x09) stats in
                     if length fields \<le> 2 then (Inl IndexError, w1)
                     else (case int_of_str (fields ! 2) of
                             Inl e \<Rightarrow> (Inl e, w1)
                           | Inr fastaSize \<Rightarrow>
                               let limit = py_int (readLimit * real_of_int fastaSize)
                               in (Inr limit, if verbose then write_stderr (Aligning limit) w1 else w1)))
            else (Inr 0, w))"
  obtain r2 w2 where first: "?first = (r2, w2)" by (cases ?first)
  then have d2: "has_dir c p w2"
    using assms(2)
    by (auto simp: Let_def has_dir_record_call has_dir_write_stderr split: if_splits sum.splits)
  show ?thesis
  proof (cases r2)
    case (Inl e)
    with assms(1) first d2 show ?thesis by (simp add: get_read_limit_def)
  next
    case (Inr limit)
    obtain r3 w3 where gl: "get_libraries env fastq fasta mapq threads limit w2 = (r3, w3)"
      by (cases "get_libraries env fastq fasta mapq threads limit w2")
    from has_dir_get_libraries [OF gl d2 assms(3)] have "has_dir c p w3" .
    with assms(1) first Inr gl show ?thesis
      by (auto simp: get_read_limit_def split: sum.splits)
  qed
qed

lemma has_dir_reduction_stage:
  assumes "reduction_stage env opts cf rf libraries limit w = (r, w')"
    and "has_dir c p w" and "keeps_directory env p"
  shows "has_dir c p w'"
proof (cases "opt_reduction opts")
  case False
  with assms(1) have "symlink cf rf w = (r, w')" by (simp add: reduction_stage_def)
  from has_dir_symlink [OF this assms(2)] show ?thesis .
next
  case True
  let ?w1 = "if opt_verbose opts
             then write_stderr (Banner ''#file name ...'') (write_stderr (Banner ''Reduction...'') w)
             else w"
  have d1: "has_dir c p ?w1" using assms(2) by (simp add: has_dir_write_stderr)
  obtain r2 w2 where wf: "write_file rf [] ?w1 = (r2, w2)" by (cases "write_file rf [] ?w1")
  from has_dir_write_file [OF wf d1] have d2: "has_dir c p w2" .
  show ?thesis
  proof (cases r2)
    case (Inl e)
    with assms(1) True wf d2 show ?thesis by (simp add: reduction_stage_def Let_def)
  next
    case (Inr u)
    show ?thesis
    proof (cases "isfile w2 cf")
      case False
      with assms(1) True wf Inr d2 show ?thesis by (simp add: reduction_stage_def Let_def)
    next
      case isf: True
      with assms(1) True wf Inr
      have rc: "run_collaborator (fasta2homozygous env rf cf libraries limit)
                  (record_call (Fasta2Homozygous rf cf) w2) = (r, w')"
        by (simp add: reduction_stage_def Let_def)
      show ?thesis
        by (rule has_dir_run_collaborator [OF rc])
           (use d2 assms(3) in \<open>auto simp: has_dir_record_call keeps_directory_def\<close>)
    qed
  qed
qed

lemma has_dir_scaffold_rounds:
  assumes "scaffold_rounds env outdir verbose lib i js pout w = (r, w')"
    and "has_dir c p w" and "keeps_directory env p"
  shows "has_dir c p w'"
  using assms(1,2)
proof (induction js arbitrary: pout w)
  case Nil
  then show ?case by simp
next
  case (Cons j js)
  let ?w1 = "if verbose then write_stderr (Iteration i j) w else w"
  let ?out = "path_join outdir (''_sspace.'' @ str_nat i @ ''.'' @ str_int j)"
  let ?tgt = "path_join (basename ?out) (basename (?out @ ''.final.scaffolds.fasta''))"
  let ?k = "Fastq2Sspace ?out pout lib"
  have d1: "has_dir c p ?w1" using Cons.prems(2) by (simp add: has_dir_write_stderr)
  show ?case
  proof (cases "isfile ?w1 pout")
    case False
    with Cons.prems(1) d1 show ?thesis by (auto simp: Let_def split: if_splits)
  next
    case True
    obtain r2 w2 where rc: "run_collaborator (fastq2sspace env ?out pout lib) (record_call ?k ?w1) = (r2, w2)"
      by (cases "run_collaborator (fastq2sspace env ?out pout lib) (record_call ?k ?w1)")
    have d2: "has_dir c p w2"
      by (rule has_dir_run_collaborator [OF rc])
         (use d1 assms(3) in \<open>auto simp: has_dir_record_call keeps_directory_def\<close>)
    show ?thesis
    proof (cases r2)
      case (Inl e)
      with Cons.prems(1) True rc d2 show ?thesis by (auto simp: Let_def split: if_splits)
    next
      case (Inr u)
      obtain r3 w3 where sl: "symlink ?tgt (?out @ ''.fa'') w2 = (r3, w3)"
        by (cases "symlink ?tgt (?out @ ''.fa'') w2")
      from has_dir_symlink [OF sl d2] have d3: "has_dir c p w3" .
      show ?thesis
      proof (cases r3)
        case (Inl e)
        with Cons.prems(1) True rc Inr sl d3 show ?thesis by (auto simp: Let_def split: if_splits)
      next
        case ok: (Inr u')
        with Cons.prems(1) True rc Inr sl
        have "scaffold_rounds env outdir verbose lib i js (?out @ ''.fa'') w3 = (r, w')"
          by (auto simp: Let_def split: if_splits)
        from Cons.IH [OF this d3] show ?thesis .
      qed
    qed
  qed
qed

lemma has_dir_scaffold_sets:
  assumes "scaffold_sets fuel env opts limit libraries i pout w = Some (r, w')"
    and "has_dir c p w" and "keeps_directory env p"
  shows "has_dir c p w'"
  using assms(1,2)
proof (induction fuel arbitrary: libraries i pout w)
  case 0
  then show ?case by simp
next
  case (Suc fuel)
  show ?case
  proof (cases "i < length libraries")
    case False
    with Suc.prems show ?thesis by simp
  next
    case True
    obtain r1 w1 where rounds: "scaffold_rounds env (opt_outdir opts) (opt_verbose opts) (libraries ! i) (i + 1)
                [1..opt_iters opts] pout w = (r1, w1)"
      by (cases "scaffold_rounds env (opt_outdir opts) (opt_verbose opts) (libraries ! i) (i + 1)
                [1..opt_iters opts] pout w")
    from has_dir_scaffold_rounds [OF rounds Suc.prems(2) assms(3)] have d1: "has_dir c p w1" .
    show ?thesis
    proof (cases r1)
      case (Inl e)
      with Suc.prems(1) True rounds d1 show ?thesis by simp
    next
      case (Inr p1)
      obtain r2 w2 where gl: "get_libraries env (opt_fastq opts) p1 (opt_mapq opts) (opt_threads opts) limit w1 = (r2, w2)"
        by (cases "get_libraries env (opt_fastq opts) p1 (opt_mapq opts) (opt_threads opts) limit w1")
      from has_dir_get_libraries [OF gl d1 assms(3)] have d2: "has_dir c p w2" .
      show ?thesis
      proof (cases r2)
        case (Inl e)
        with Suc.prems(1) True rounds Inr gl d2 show ?thesis by simp
      next
        case libs: (Inr libs1)
        with Suc.prems(1) True rounds Inr gl
        have "scaffold_sets fuel env opts limit libs1 (i + 1) p1 w2 = Some (r, w')" by simp
        from Suc.IH [OF this d2] show ?thesis .
      qed
    qed
  qed
qed

lemma has_dir_run_scaffolding:
  assumes "run_scaffolding fuel env opts sf libraries rf limit w = Some (r, w')"
    and "has_dir c p w" and "keeps_directory env p"
  shows "has_dir c p w'"
proof -
  from assms(1) obtain r1 w1 where sets: "scaffold_sets fuel env opts limit libraries 0 rf w = Some (r1, w1)"
    by (cases "scaffold_sets fuel env opts limit libraries 0 rf w") (auto simp: run_scaffolding_def)
  from has_dir_scaffold_sets [OF sets assms(2,3)] have d1: "has_dir c p w1" .
  show ?thesis
  proof (cases r1)
    case (Inl e)
    with assms(1) sets d1 show ?thesis by (simp add: run_scaffolding_def)
  next
    case (Inr x)
    obtain pout libs1 where x: "x = (pout, libs1)" by (cases x)
    obtain r2 w2 where sl: "symlink pout sf w1 = (r2, w2)" by (cases "symlink pout sf w1")
    from has_dir_symlink [OF sl d1] have "has_dir c p w2" .
    with assms(1) sets Inr x sl show ?thesis
      by (auto simp: run_scaffolding_def split: sum.splits)
  qed
qed

lemma has_dir_scaffolding_stage:
  assumes "scaffolding_stage fuel env opts sf libraries rf limit w = Some (r, w')"
    and "has_dir c p w" and "keeps_directory env p"
  shows "has_dir c p w'"
proof (cases "opt_scaffolding opts")
  case True
  let ?w1 = "if opt_verbose opts then write_stderr (Banner ''Scaffolding...'') w else w"
  have d1: "has_dir c p ?w1" using assms(2) by (simp add: has_dir_write_stderr)
  from assms(1) True have "run_scaffolding fuel env opts sf libraries rf limit ?w1 = Some (r, w')"
    by (simp add: scaffolding_stage_def)
  from has_dir_run_scaffolding [OF this d1 assms(3)] show ?thesis .
next
  case False
  obtain r2 w2 where sl: "symlink rf sf w = (r2, w2)" by (cases "symlink rf sf w")
  from has_dir_symlink [OF sl assms(2)] have "has_dir c p w2" .
  with assms(1) False sl show ?thesis
    by (auto simp: scaffolding_stage_def split: sum.splits)
qed

lemma has_dir_filter_reads:
  assumes "filter_reads i outdir f r w = (res, w')" and "has_dir c p w"
  shows "has_dir c p w'"
proof -
  let ?fn1 = "path_join outdir (''_gapcloser.'' @ str_nat i @ ''.'' @ basename f @ ''.fq'')"
  let ?fn2 = "path_join outdir (''_gapcloser.'' @ str_nat i @ ''.'' @ basename r @ ''.fq'')"
  obtain r1 w1 where 1: "write_file ?fn1 [] w = (r1, w1)" by (cases "write_file ?fn1 [] w")
  from has_dir_write_file [OF 1 assms(2)] have d1: "has_dir c p w1" .
  obtain r2 w2 where 2: "write_file ?fn2 [] w1 = (r2, w2)" by (cases "write_file ?fn2 [] w1")
  from has_dir_write_file [OF 2 d1] have d2: "has_dir c p w2" .
  from assms(1) 1 2 d1 d2 show ?thesis
    by (auto simp: filter_reads_def Let_def split: sum.splits)
qed

lemma has_dir_prepare_loop:
  "prepare_loop outdir verbose i rows config w = (res, w') \<Longrightarrow> has_dir c p w \<Longrightarrow> has_dir c p w'"
proof (induction rows arbitrary: i config w)
  case Nil
  then show ?case by simp
next
  case (Cons row rows)
  obtain f r orient iSize iFrac where row: "row = (f, r, orient, iSize, iFrac)" by (cases row)
  show ?case
  proof (cases "reverse_seq_of orient")
    case None
    let ?w1 = "if verbose then write_stderr (SkippingUnsupported orient f r) w else w"
    have d1: "has_dir c p ?w1" using Cons.prems(2) by (simp add: has_dir_write_stderr)
    from Cons.prems(1) row None
    have "prepare_loop outdir verbose (i + 1) rows config ?w1 = (res, w')" by simp
    from Cons.IH [OF this d1] show ?thesis .
  next
    case (Some rs)
    obtain r1 w1 where fr: "filter_reads i outdir f r w = (r1, w1)" by (cases "filter_reads i outdir f r w")
    from has_dir_filter_reads [OF fr Cons.prems(2)] have d1: "has_dir c p w1" .
    show ?thesis
    proof (cases r1)
      case (Inl e)
      with Cons.prems(1) row Some fr d1 show ?thesis by simp
    next
      case (Inr fns)
      obtain fn1 fn2 where fns: "fns = (fn1, fn2)" by (cases fns)
      with Cons.prems(1) row Some fr Inr
      have "prepare_loop outdir verbose (i + 1) rows (config @ [lib_lines iSize rs i fn1 fn2]) w1 = (res, w')"
        by simp
      from Cons.IH [OF this d1] show ?thesis .
    qed
  qed
qed

lemma has_dir_prepare_gapcloser:
  assumes "prepare_gapcloser outdir configFn lib maxlen verbose w = (res, w')" and "has_dir c p w"
  shows "has_dir c p w'"
proof -
  let ?hd = "''max_rd_len='' @ str_int maxlen"
  obtain r1 w1 where loop: "prepare_loop outdir verbose 1 (lib_rows lib) [?hd] w = (r1, w1)"
    by (cases "prepare_loop outdir verbose 1 (lib_rows lib) [?hd] w")
  from has_dir_prepare_loop [OF loop assms(2)] have d1: "has_dir c p w1" .
  show ?thesis
  proof (cases r1)
    case (Inl e)
    with assms(1) loop d1 show ?thesis by (simp add: prepare_gapcloser_def)
  next
    case (Inr config)
    obtain r2 w2 where wr: "write_file configFn (join_lines config) w1 = (r2, w2)"
      by (cases "write_file configFn (join_lines config) w1")
    from has_dir_write_file [OF wr d1] have "has_dir c p w2" .
    with assms(1) loop Inr wr d1 show ?thesis
      by (auto simp: prepare_gapcloser_def split: if_splits sum.splits)
  qed
qed

lemma has_dir_gapcloser_rounds:
  assumes "gapcloser_rounds env outdir verbose configFn i js pout w = (r, w')"
    and "has_dir c p w" and "keeps_directory env p"
  shows "has_dir c p w'"
  using assms(1,2)
proof (induction js arbitrary: pout w)
  case Nil
  then show ?case by simp
next
  case (Cons j js)
  let ?out = "path_join outdir (''_gapcloser.'' @ str_nat i @ ''.'' @ str_int j @ ''.fa'')"
  let ?w1 = "if verbose then write_stderr (Iteration i j) w else w"
  have d1: "has_dir c p ?w1" using Cons.prems(2) by (simp add: has_dir_write_stderr)
  obtain r2 w2 where wf: "write_file (?out @ ''.log'') [] ?w1 = (r2, w2)"
    by (cases "write_file (?out @ ''.log'') [] ?w1")
  from has_dir_write_file [OF wf d1] have d2: "has_dir c p w2" .
  show ?case
  proof (cases r2)
    case (Inl e)
    with Cons.prems(1) wf d2 show ?thesis by (auto simp: Let_def split: if_splits)
  next
    case (Inr u)
    obtain r3 w3 where rc: "run_collaborator (gapcloser env pout configFn ?out)
                              (record_call (GapCloser pout configFn ?out) w2) = (r3, w3)"
      by (cases "run_collaborator (gapcloser env pout configFn ?out)
                              (record_call (GapCloser pout configFn ?out) w2)")
    have d3: "has_dir c p w3"
      by (rule has_dir_run_collaborator [OF rc])
         (use d2 assms(3) in \<open>auto simp: has_dir_record_call keeps_directory_def\<close>)
    show ?thesis
    proof (cases r3)
      case (Inl e)
      with Cons.prems(1) wf Inr rc d3 show ?thesis by (auto simp: Let_def split: if_splits)
    next
      case ok: (Inr u')
      with Cons.prems(1) wf Inr rc
      have "gapcloser_rounds env outdir verbose configFn i js ?out w3 = (r, w')"
        by (auto simp: Let_def split: if_splits)
      from Cons.IH [OF this d3] show ?thesis .
    qed
  qed
qed

lemma has_dir_gapclosing_sets:
  assumes "gapclosing_sets env opts i libs pout w = (r, w')"
    and "has_dir c p w" and "keeps_directory env p"
  shows "has_dir c p w'"
  using assms(1,2)
proof (induction libs arbitrary: i pout w)
  case Nil
  then show ?case by simp
next
  case (Cons lib libs)
  let ?cf = "path_join (opt_outdir opts) (''_gapcloser.'' @ str_nat i @ ''.conf'')"
  obtain r1 w1 where pg: "prepare_gapcloser (opt_outdir opts) ?cf lib 150 (opt_verbose opts) w = (r1, w1)"
    by (cases "prepare_gapcloser (opt_outdir opts) ?cf lib 150 (opt_verbose opts) w")
  from has_dir_prepare_gapcloser [OF pg Cons.prems(2)] have d1: "has_dir c p w1" .
  show ?case
  proof (cases r1)
    case (Inl e)
    with Cons.prems(1) pg d1 show ?thesis by (simp add: Let_def)
  next
    case (Inr prepared)
    show ?thesis
    proof (cases "prepared = Some True")
      case False
      with Cons.prems(1) pg Inr have "gapclosing_sets env opts (i + 1) libs pout w1 = (r, w')"
        by (simp add: Let_def)
      from Cons.IH [OF this d1] show ?thesis .
    next
      case True
      obtain r2 w2 where gr: "gapcloser_rounds env (opt_outdir opts) (opt_verbose opts) ?cf i
                       [1..opt_iters opts] pout w1 = (r2, w2)"
        by (cases "gapcloser_rounds env (opt_outdir opts) (opt_verbose opts) ?cf i
                       [1..opt_iters opts] pout w1")
      from has_dir_gapcloser_rounds [OF gr d1 assms(3)] have d2: "has_dir c p w2" .
      show ?thesis
      proof (cases r2)
        case (Inl e)
        with Cons.prems(1) pg Inr True gr d2 show ?thesis by (simp add: Let_def)
      next
        case ok: (Inr pout')
        with Cons.prems(1) pg Inr True gr
        have "gapclosing_sets env opts (i + 1) libs pout' w2 = (r, w')" by (simp add: Let_def)
        from Cons.IH [OF this d2] show ?thesis .
      qed
    qed
  qed
qed

lemma has_dir_gapclosing_stage:
  assumes "gapclosing_stage env opts nf sf libraries w = (r, w')"
    and "has_dir c p w" and "keeps_directory env p"
  shows "has_dir c p w'"
proof (cases "opt_gapclosing opts \<and> libraries \<noteq> []")
  case False
  with assms(1) have "symlink sf nf w = (r, w')" by (auto simp: gapclosing_stage_def)
  from has_dir_symlink [OF this assms(2)] show ?thesis .
next
  case True
  let ?w1 = "if opt_verbose opts then write_stderr (Banner ''Gap closing...'') w else w"
  have d1: "has_dir c p ?w1" using assms(2) by (simp add: has_dir_write_stderr)
  from assms(1) True have rg: "run_gapclosing env opts libraries nf sf ?w1 = (r, w')"
    by (simp add: gapclosing_stage_def)
  obtain r2 w2 where gs: "gapclosing_sets env opts 1 libraries sf ?w1 = (r2, w2)"
    by (cases "gapclosing_sets env opts 1 libraries sf ?w1")
  from has_dir_gapclosing_sets [OF gs d1 assms(3)] have d2: "has_dir c p w2" .
  show ?thesis
  proof (cases r2)
    case (Inl e)
    with rg gs d2 show ?thesis by (simp add: run_gapclosing_def)
  next
    case (Inr pout)
    with rg gs have "symlink pout nf w2 = (r, w')" by (simp add: run_gapclosing_def)
    from has_dir_symlink [OF this d2] show ?thesis .
  qed
qed

lemma has_dir_report_stats:
  "report_stats env fns w = (r, w') \<Longrightarrow> has_dir c p w \<Longrightarrow> has_dir c p w'"
proof (induction fns arbitrary: w)
  case Nil
  then show ?case by simp
next
  case (Cons fn fns)
  show ?case
  proof (cases "isfile w fn")
    case False
    with Cons.prems show ?thesis by simp
  next
    case True
    let ?w1 = "record_call (FastaStats fn) w"
    have d1: "has_dir c p ?w1" using Cons.prems(2) by (simp add: has_dir_record_call)
    show ?thesis
    proof (cases "fasta_stats env fn (files ?w1)")
      case (Inl e)
      with Cons.prems(1) True d1 show ?thesis by (simp add: Let_def)
    next
      case (Inr line)
      with Cons.prems(1) True
      have "report_stats env fns (write_stderr (StatsLine line) ?w1) = (r, w')" by (simp add: Let_def)
      moreover have "has_dir c p (write_stderr (StatsLine line) ?w1)"
        using d1 by (simp add: has_dir_write_stderr)
      ultimately show ?thesis by (rule Cons.IH)
    qed
  qed
qed

lemma has_dir_report_stage:
  assumes "report_stage env opts cf rf sf nf w = (r, w')" and "has_dir c p w"
  shows "has_dir c p w'"
proof -
  let ?w1 = "if opt_verbose opts then write_stderr (Banner ''Reporting statistics...'') w else w"
  let ?fastas = "[cf, rf]
                   @ sort (glob env (path_join (opt_outdir opts) ''_sspace.*.fa'') (files ?w1))
                   @ [sf]
                   @ sort (glob env (path_join (opt_outdir opts) ''_gap*.fa'') (files ?w1))
                   @ [nf]"
  have d1: "has_dir c p (write_stderr (Banner ''#fname ...'') ?w1)"
    using assms(2) by (simp add: has_dir_write_stderr)
  have "report_stage env opts cf rf sf nf w
          = report_stats env ?fastas (write_stderr (Banner ''#fname ...'') ?w1)"
    unfolding report_stage_def Let_def ..
  with assms(1) have "report_stats env ?fastas (write_stderr (Banner ''#fname ...'') ?w1) = (r, w')"
    by (simp only:)
  from has_dir_report_stats [OF this d1] show ?thesis .
qed

lemma has_dir_makedirs:
  assumes "makedirs name w = (Inr u, w')"
  shows "has_dir (cwd w) (abspath w name) w'"
proof -
  let ?p = "abspath w name"
  from assms have "w' = w\<lparr>files := (\<lambda>q. if q = ?p \<or> (q \<in> set (ancestors ?p) \<and> files w q = None)
                                      then Some Directory else files w q)\<rparr>"
    by (simp add: makedirs_def Let_def split: if_splits)
  then show ?thesis by (simp add: has_dir_def)
qed

lemma has_dir_isdir:
  assumes "has_dir (cwd w) (abspath w name) w'"
  shows "isdir w' name"
proof -
  from assms have c: "cwd w' = cwd w" and f: "files w' (abspath w name) = Some Directory"
    by (simp_all add: has_dir_def)
  from c have a: "abspath w' name = abspath w name" by (simp add: abspath_def)
  from f a have f': "files w' (abspath w' name) = Some Directory" by simp
  then have "resolve (Suc max_links) w' name = Some (abspath w' name)" by simp
  with f' show ?thesis by (simp add: isdir_def del: resolve.simps)
qed

lemma has_dir_redundants:
  assumes run: "redundants fuel env opts w = Some (r, w')"
    and nd: "\<not> isdir w (opt_outdir opts)"
    and mk: "fst (makedirs (opt_outdir opts) w) = Inr ()"
    and keep: "keeps_directory env (abspath w (opt_outdir opts))"
  shows "has_dir (cwd w) (abspath w (opt_outdir opts)) w'"
proof -
  let ?outdir = "opt_outdir opts"
  let ?c = "cwd w" and ?p = "abspath w (opt_outdir opts)"
  let ?cf = "path_join ?outdir ''contigs.fa''" and ?rf = "path_join ?outdir ''contigs.reduced.fa''"
  let ?sf = "path_join ?outdir ''scaffolds.fa''" and ?nf = "path_join ?outdir ''scaffolds.filled.fa''"
  obtain w1 where m: "makedirs ?outdir w = (Inr (), w1)"
    using mk by (cases "makedirs ?outdir w") simp
  from has_dir_makedirs [OF m] have d1: "has_dir ?c ?p w1" .
  obtain r2 w2 where sl: "symlink (opt_fasta opts) ?cf w1 = (r2, w2)"
    by (cases "symlink (opt_fasta opts) ?cf w1")
  from has_dir_symlink [OF sl d1] have d2: "has_dir ?c ?p w2" .
  show ?thesis
  proof (cases r2)
    case (Inl e)
    with run nd m sl d2 show ?thesis by (simp add: redundants_def Let_def)
  next
    case ok2: (Inr u2)
    obtain r3 w3 where rl: "get_read_limit env (opt_fastq opts) ?cf (opt_mapq opts)
                             (opt_threads opts) (opt_readLimit opts) (opt_verbose opts) w2 = (r3, w3)"
      by (cases "get_read_limit env (opt_fastq opts) ?cf (opt_mapq opts)
                             (opt_threads opts) (opt_readLimit opts) (opt_verbose opts) w2")
    from has_dir_get_read_limit [OF rl d2 keep] have d3: "has_dir ?c ?p w3" .
    show ?thesis
    proof (cases r3)
      case (Inl e)
      with run nd m sl ok2 rl d3 show ?thesis by (simp add: redundants_def Let_def)
    next
      case ok3: (Inr x)
      obtain limit libraries where x: "x = (limit, libraries)" by (cases x)
      obtain r4 w4 where rs: "reduction_stage env opts ?cf ?rf libraries limit w3 = (r4, w4)"
        by (cases "reduction_stage env opts ?cf ?rf libraries limit w3")
      from has_dir_reduction_stage [OF rs d3 keep] have d4: "has_dir ?c ?p w4" .
      show ?thesis
      proof (cases r4)
        case (Inl e)
        with run nd m sl ok2 rl ok3 x rs d4 show ?thesis by (simp add: redundants_def Let_def)
      next
        case ok4: (Inr u4)
        from run nd m sl ok2 rl ok3 x rs ok4
        obtain r5 w5 where ss: "scaffolding_stage fuel env opts ?sf libraries ?rf limit w4 = Some (r5, w5)"
          by (cases "scaffolding_stage fuel env opts ?sf libraries ?rf limit w4")
             (auto simp: redundants_def Let_def)
        from has_dir_scaffolding_stage [OF ss d4 keep] have d5: "has_dir ?c ?p w5" .
        show ?thesis
        proof (cases r5)
          case (Inl e)
          with run nd m sl ok2 rl ok3 x rs ok4 ss d5 show ?thesis by (simp add: redundants_def Let_def)
        next
          case ok5: (Inr libraries')
          obtain r6 w6 where gs: "gapclosing_stage env opts ?nf ?sf libraries' w5 = (r6, w6)"
            by (cases "gapclosing_stage env opts ?nf ?sf libraries' w5")
          from has_dir_gapclosing_stage [OF gs d5 keep] have d6: "has_dir ?c ?p w6" .
          show ?thesis
          proof (cases r6)
            case (Inl e)
            with run nd m sl ok2 rl ok3 x rs ok4 ss ok5 gs d6 show ?thesis
              by (simp add: redundants_def Let_def)
          next
            case ok6: (Inr u6)
            with run nd m sl ok2 rl ok3 x rs ok4 ss ok5 gs
            have "report_stage env opts ?cf ?rf ?sf ?nf w6 = (r, w')"
              by (simp add: redundants_def Let_def)
            from has_dir_report_stage [OF this d6] show ?thesis .
          qed
        qed
      qed
    qed
  qed
qed

lemma redundants_exists:
  assumes "isdir w (opt_outdir opts)"
  shows "redundants fuel env opts w
           = Some (Inl (SystemExit 1), w\<lparr>stderr := stderr w @ [DirectoryExists (opt_outdir opts)]\<rparr>)"
  using assms by (simp add: redundants_def Let_def write_stderr_def)

lemma isdir_stderr_update: "isdir (w\<lparr>stderr := s\<rparr>) p = isdir w p"
proof -
  have a: "\<And>q. abspath (w\<lparr>stderr := s\<rparr>) q = abspath w q" by (simp add: abspath_def)
  have "resolve n (w\<lparr>stderr := s\<rparr>) q = resolve n w q" for n q
    by (induction n arbitrary: q) (simp_all add: a split: option.splits node.splits)
  then show ?thesis by (simp add: isdir_def split: option.splits del: resolve.simps)
qed

lemma keeps_ex_env_idle: "keeps_directory ex_env_idle p"
  by (simp add: keeps_directory_def ex_env_idle_def ex_env_def)

text \<open>
  C9. When the output directory exists at the start of a run, the run ends at once with
  \<^verbatim>\<open>sys.exit(1)\<close>: one line is written to the diagnostic stream, and the file
  system and the list of collaborator invocations are as they were, so no stage ran. A
  second run against that directory (with any options that name it, and any
  collaborators) ends the same way. When the directory does not exist, is created by the
  run, and no collaborator removes or replaces it, whatever the run returns it leaves
  the directory in place, and a second run against it ends at once with
  \<^verbatim>\<open>sys.exit(1)\<close> and the file system untouched.
\<close>

theorem existing_outdir_fails_fast:
  "(isdir w (opt_outdir opts) \<and> opt_outdir opts' = opt_outdir opts \<longrightarrow>
      redundants fuel env opts w
        = Some (Inl (SystemExit 1), w\<lparr>stderr := stderr w @ [DirectoryExists (opt_outdir opts)]\<rparr>)
      \<and> redundants fuel' env' opts' (w\<lparr>stderr := stderr w @ [DirectoryExists (opt_outdir opts)]\<rparr>)
        = Some (Inl (SystemExit 1),
                w\<lparr>stderr := stderr w @ [DirectoryExists (opt_outdir opts), DirectoryExists (opt_outdir opts)]\<rparr>))
   \<and> (\<not> isdir w (opt_outdir opts) \<and> fst (makedirs (opt_outdir opts) w) = Inr ()
        \<and> keeps_directory env (abspath w (opt_outdir opts))
        \<and> redundants fuel env opts w = Some (r, w1) \<and> opt_outdir opts' = opt_outdir opts \<longrightarrow>
      isdir w1 (opt_outdir opts)
      \<and> redundants fuel' env' opts' w1
        = Some (Inl (SystemExit 1), w1\<lparr>stderr := stderr w1 @ [DirectoryExists (opt_outdir opts)]\<rparr>))"
proof (intro conjI impI)
  assume a: "isdir w (opt_outdir opts) \<and> opt_outdir opts' = opt_outdir opts"
  then show "redundants fuel env opts w
        = Some (Inl (SystemExit 1), w\<lparr>stderr := stderr w @ [DirectoryExists (opt_outdir opts)]\<rparr>)"
    by (simp add: redundants_exists)
  let ?w1 = "w\<lparr>stderr := stderr w @ [DirectoryExists (opt_outdir opts)]\<rparr>"
  from a have "isdir ?w1 (opt_outdir opts')" by (simp add: isdir_stderr_update)
  from redundants_exists [OF this, of fuel' env'] a
  show "redundants fuel' env' opts' ?w1
        = Some (Inl (SystemExit 1),
                w\<lparr>stderr := stderr w @ [DirectoryExists (opt_outdir opts), DirectoryExists (opt_outdir opts)]\<rparr>)"
    by simp
next
  assume b: "\<not> isdir w (opt_outdir opts) \<and> fst (makedirs (opt_outdir opts) w) = Inr ()
        \<and> keeps_directory env (abspath w (opt_outdir opts))
        \<and> redundants fuel env opts w = Some (r, w1) \<and> opt_outdir opts' = opt_outdir opts"
  then have "has_dir (cwd w) (abspath w (opt_outdir opts)) w1"
    by (intro has_dir_redundants [of fuel env opts w r w1]) simp_all
  then show d: "isdir w1 (opt_outdir opts)" by (rule has_dir_isdir)
  with b have "isdir w1 (opt_outdir opts')" by simp
  from redundants_exists [OF this, of fuel' env'] b
  show "redundants fuel' env' opts' w1
        = Some (Inl (SystemExit 1), w1\<lparr>stderr := stderr w1 @ [DirectoryExists (opt_outdir opts)]\<rparr>)"
    by simp
qed

lemma ex_first_run:
  "map_option fst (redundants 3 ex_env_idle ex_opts_off ex_world) = Some (Inr ())"
  by code_simp

theorem existing_outdir_fails_fast_witness:
  "isdir ex_world_out (opt_outdir ex_opts)
   \<and> map_option fst (redundants 3 ex_env ex_opts ex_world_out) = Some (Inl (SystemExit 1))
   \<and> map_option (\<lambda>x. files (snd x)) (redundants 3 ex_env ex_opts ex_world_out)
       = Some (files ex_world_out)
   \<and> map_option (\<lambda>x. calls (snd x)) (redundants 3 ex_env ex_opts ex_world_out) = Some []
   \<and> \<not> isdir ex_world (opt_outdir ex_opts_off)
   \<and> fst (makedirs (opt_outdir ex_opts_off) ex_world) = Inr ()
   \<and> keeps_directory ex_env_idle (abspath ex_world (opt_outdir ex_opts_off))
   \<and> map_option fst (redundants 3 ex_env_idle ex_opts_off ex_world) = Some (Inr ())
   \<and> map_option fst
         (Option.bind (redundants 3 ex_env_idle ex_opts_off ex_world)
            (\<lambda>x. redundants 3 ex_env ex_opts (snd x)))
       = Some (Inl (SystemExit 1))"
proof -
  have h1: "isdir ex_world_out (opt_outdir ex_opts)" by code_simp
  have o: "opt_outdir ex_opts = opt_outdir ex_opts" ..
  from existing_outdir_fails_fast [of ex_world_out ex_opts ex_opts 3 ex_env] h1
  have first: "redundants 3 ex_env ex_opts ex_world_out
        = Some (Inl (SystemExit 1),
                ex_world_out\<lparr>stderr := stderr ex_world_out @ [DirectoryExists (opt_outdir ex_opts)]\<rparr>)"
    by simp
  have c0: "calls ex_world_out = []" by (simp add: ex_world_out_def ex_world_def)
  from first c0 have a: "map_option fst (redundants 3 ex_env ex_opts ex_world_out) = Some (Inl (SystemExit 1))"
    and b: "map_option (\<lambda>x. files (snd x)) (redundants 3 ex_env ex_opts ex_world_out)
              = Some (files ex_world_out)"
    and c: "map_option (\<lambda>x. calls (snd x)) (redundants 3 ex_env ex_opts ex_world_out) = Some []"
    by simp_all
  have h2: "\<not> isdir ex_world (opt_outdir ex_opts_off)" by code_simp
  have h3: "fst (makedirs (opt_outdir ex_opts_off) ex_world) = Inr ()" by code_simp
  have h4: "keeps_directory ex_env_idle (abspath ex_world (opt_outdir ex_opts_off))"
    by (rule keeps_ex_env_idle)
  have h5: "opt_outdir ex_opts = opt_outdir ex_opts_off" by (simp add: ex_opts_off_def)
  from ex_first_run obtain w1 where run: "redundants 3 ex_env_idle ex_opts_off ex_world = Some (Inr (), w1)"
    by (cases "redundants 3 ex_env_idle ex_opts_off ex_world") auto
  from existing_outdir_fails_fast [of ex_world ex_opts_off ex_opts 3 ex_env_idle 3 ex_env "Inr ()" w1]
    h2 h3 h4 h5 run
  have "redundants 3 ex_env ex_opts w1
        = Some (Inl (SystemExit 1), w1\<lparr>stderr := stderr w1 @ [DirectoryExists (opt_outdir ex_opts_off)]\<rparr>)"
    by simp
  with run have d: "map_option fst
         (Option.bind (redundants 3 ex_env_idle ex_opts_off ex_world)
            (\<lambda>x. redundants 3 ex_env ex_opts (snd x)))
       = Some (Inl (SystemExit 1))"
    by simp
  from h1 a b c h2 h3 h4 ex_first_run d show ?thesis by (intro conjI)
qed

end
